theory Spec2Isabelle
  imports Main
begin

section \<open>Bytes and the text of non-negative integers\<close>

text \<open>
  Python \<open>bytes\<close> and the ASCII \<open>str\<close> values of \<open>streaming_web.py\<close> are both
  lists of characters; every string of the program is ASCII, so \<open>encode('utf-8')\<close> and
  \<open>encode('latin-1')\<close> leave the list as it is.
\<close>

type_synonym bytes = string

definition CRLF :: bytes where
  "CRLF = [CHR 0x0D, CHR 0x0A]"

definition digit :: "nat \<Rightarrow> char" where
  "digit d = char_of (48 + d)"

text \<open>
  \<open>py_str n\<close> is what \<open>'%s' % n\<close> gives for an \<open>int\<close> that is not negative
  (\<open>len(...)\<close> and the constant \<open>0\<close> are the only integers the program formats into
  a header; \<open>640\<close> and \<open>480\<close> go into the page).
\<close>

fun py_str :: "nat \<Rightarrow> string" where
  "py_str n = (if n < 10 then [digit n] else py_str (n div 10) @ [digit (n mod 10)])"

declare py_str.simps [simp del]

text \<open>Reading a decimal numeral back, to say what number a header carries.\<close>

definition py_int :: "string \<Rightarrow> nat" where
  "py_int s = foldl (\<lambda>a c. 10 * a + (of_char c - 48)) 0 s"

section \<open>The request handler and the part of \<open>http.server\<close> it calls\<close>

text \<open>
  Exceptions carry the text \<open>str(e)\<close> gives. \<open>OSError\<close> stands for what a write to a
  socket whose peer is gone raises (\<open>BrokenPipeError\<close>, \<open>ConnectionResetError\<close>),
  \<open>TypeError\<close> for \<open>len(None)\<close>.
\<close>

datatype exn = OSError string | TypeError string

fun str_exn :: "exn \<Rightarrow> string" where
  "str_exn (OSError m) = m"
| "str_exn (TypeError m) = m"

text \<open>
  Where the thread that serves one connection stands:
  \<^item> \<open>Routing\<close>: inside \<open>do_GET\<close>, before the frame loop;
  \<^item> \<open>Ready\<close>: at the top of \<open>while True\<close>, about to enter \<open>with output.condition\<close>
    and call \<open>wait()\<close>;
  \<^item> \<open>Parked\<close>: blocked inside \<open>output.condition.wait()\<close>, the lock released;
  \<^item> \<open>Woken\<close>: \<open>wait()\<close> is about to return: the thread takes the lock again and
    executes \<open>frame = output.frame\<close> and the writes of the part;
  \<^item> \<open>Closed\<close>: the \<open>except Exception\<close> branch of \<open>stream_video_frames\<close> ran and
    the handler returned;
  \<^item> \<open>Returned\<close>: \<open>do_GET\<close> returned without entering the frame loop;
  \<^item> \<open>Crashed e\<close>: \<open>e\<close> left \<open>do_GET\<close> uncaught.
\<close>

datatype phase = Routing | Ready | Parked | Woken | Closed | Returned | Crashed exn

text \<open>
  A \<open>StreamingHandler\<close>: the path and the protocol version of the request line, the
  header buffer of \<open>BaseHTTPRequestHandler\<close>, the bytes the socket has accepted through
  \<open>wfile\<close>, and the peer. \<open>request_version\<close> is \<open>HTTP/0.9\<close> for a request line
  of two words (\<open>GET /stream.mjpg\<close>), and the third word otherwise.
  \<open>peer = Some (k, e)\<close> says that the peer takes \<open>k\<close> more writes and that
  every later write raises \<open>e\<close>; \<open>peer = None\<close> is a peer that never goes away.
\<close>

record handler =
  path :: string
  request_version :: string
  headers_buffer :: bytes
  wfile :: bytes
  peer :: "(nat \<times> exn) option"
  pc :: phase

text \<open>
  A call either returns the handler's new state or raises: \<open>Inl (e, h)\<close> is the exception
  \<open>e\<close> raised in state \<open>h\<close>, so that what was written before the raise stays visible.
\<close>

type_synonym result = "exn \<times> handler + handler"

definition and_then :: "result \<Rightarrow> (handler \<Rightarrow> result) \<Rightarrow> result" where
  "and_then r f = (case r of Inl x \<Rightarrow> Inl x | Inr h \<Rightarrow> f h)"

text \<open>
  \<open>self.wfile.write(b)\<close>: an unbuffered write to the socket. A write that raises adds
  nothing to what the peer has received.
\<close>

definition wfile_write :: "bytes \<Rightarrow> handler \<Rightarrow> result" where
  "wfile_write b h =
     (case peer h of
        None \<Rightarrow> Inr (h\<lparr>wfile := wfile h @ b\<rparr>)
      | Some (k, e) \<Rightarrow>
          (case k of
             0 \<Rightarrow> Inl (e, h)
           | Suc k' \<Rightarrow> Inr (h\<lparr>wfile := wfile h @ b, peer := Some (k', e)\<rparr>)))"

text \<open>
  The standard library is not part of the repository; the calls the handler makes are
  modelled after \<open>http/server.py\<close>. What the library takes from its own state or from
  the clock is a parameter: the status line \<open>'%s %d %s\r\n' % (protocol_version, code,
  message)\<close>, \<open>version_string()\<close>, \<open>date_time_string()\<close>, and the page
  \<open>send_error\<close> renders for a code.
\<close>

record httplib =
  status_line :: "nat \<Rightarrow> bytes"
  version_string :: string
  date_time_string :: string
  error_body :: "nat \<Rightarrow> bytes"

text \<open>
  \<open>send_response_only\<close>, \<open>send_header\<close> and \<open>end_headers\<close> do nothing for an
  HTTP/0.9 request. Otherwise the first two append to the header buffer and write nothing,
  and \<open>end_headers\<close> appends the blank line and calls \<open>flush_headers\<close>, which writes
  the buffer to \<open>wfile\<close> in one write and then empties it; when that write raises, the
  buffer stays as it is, blank line included. (\<open>send_header\<close> also sets
  \<open>close_connection\<close> for a \<open>Connection\<close> header; nothing here depends on it.)
\<close>

definition send_response_only :: "httplib \<Rightarrow> nat \<Rightarrow> handler \<Rightarrow> handler" where
  "send_response_only lib code h =
     (if request_version h \<noteq> ''HTTP/0.9''
      then h\<lparr>headers_buffer := headers_buffer h @ status_line lib code\<rparr>
      else h)"

definition send_header :: "string \<Rightarrow> string \<Rightarrow> handler \<Rightarrow> handler" where
  "send_header keyword v h =
     (if request_version h \<noteq> ''HTTP/0.9''
      then h\<lparr>headers_buffer := headers_buffer h @ keyword @ '': '' @ v @ CRLF\<rparr>
      else h)"

text \<open>
  \<open>send_response(code)\<close>: the status line, then the library's own \<open>Server\<close> and
  \<open>Date\<close> headers (and a line in the access log on \<open>stderr\<close>, which is not
  \<open>logging\<close>).
\<close>

definition send_response :: "httplib \<Rightarrow> nat \<Rightarrow> handler \<Rightarrow> handler" where
  "send_response lib code h =
     send_header ''Date'' (date_time_string lib)
       (send_header ''Server'' (version_string lib) (send_response_only lib code h))"

definition flush_headers :: "handler \<Rightarrow> result" where
  "flush_headers h =
     and_then (wfile_write (headers_buffer h) h) (\<lambda>h'. Inr (h'\<lparr>headers_buffer := []\<rparr>))"

definition end_headers :: "handler \<Rightarrow> result" where
  "end_headers h =
     (if request_version h \<noteq> ''HTTP/0.9''
      then flush_headers (h\<lparr>headers_buffer := headers_buffer h @ CRLF\<rparr>)
      else Inr h)"

text \<open>
  \<open>send_error(code)\<close> as \<open>do_GET\<close> calls it: no message, no explanation, and the
  command is not \<open>HEAD\<close>.
\<close>

definition send_error :: "httplib \<Rightarrow> nat \<Rightarrow> handler \<Rightarrow> result" where
  "send_error lib code h =
     (let h1 = send_header ''Connection'' ''close'' (send_response lib code h);
          body = error_body lib code
      in if 200 \<le> code \<and> code \<noteq> 204 \<and> code \<noteq> 205 \<and> code \<noteq> 304
         then and_then
                (end_headers
                   (send_header ''Content-Length'' (py_str (length body))
                      (send_header ''Content-Type'' ''text/html;charset=utf-8'' h1)))
                (\<lambda>h2. if body = [] then Inr h2 else wfile_write body h2)
         else end_headers h1)"

subsection \<open>The constants and the page\<close>

definition STREAM_WIDTH :: nat where "STREAM_WIDTH = 640"
definition STREAM_HEIGHT :: nat where "STREAM_HEIGHT = 480"

text \<open>
  \<open>PAGE_TEMPLATE.format(width=w, height=h)\<close>: the template with its two fields filled in.
  The template starts and ends with a newline.
\<close>

definition PAGE_TEMPLATE :: "nat \<Rightarrow> nat \<Rightarrow> string" where
  "PAGE_TEMPLATE w h =
     [CHR 0x0A] @ ''<html>'' @ [CHR 0x0A] @ ''<head>'' @ [CHR 0x0A]
     @ ''<title>picamera2 MJPEG streaming</title>'' @ [CHR 0x0A]
     @ ''</head>'' @ [CHR 0x0A] @ ''<body>'' @ [CHR 0x0A]
     @ ''<h1>Picamera2 MJPEG Streaming</h1>'' @ [CHR 0x0A]
     @ ''<img src='' @ [CHR 0x22] @ ''stream.mjpg'' @ [CHR 0x22]
     @ '' width='' @ [CHR 0x22] @ py_str w @ [CHR 0x22]
     @ '' height='' @ [CHR 0x22] @ py_str h @ [CHR 0x22] @ '' />'' @ [CHR 0x0A]
     @ ''</body>'' @ [CHR 0x0A] @ ''</html>'' @ [CHR 0x0A]"

subsection \<open>\<open>StreamingHandler\<close>\<close>

definition redirect_to_index :: "httplib \<Rightarrow> handler \<Rightarrow> result" where
  "redirect_to_index lib h =
     end_headers (send_header ''Location'' ''/index.html'' (send_response lib 301 h))"

definition handle_index_page :: "httplib \<Rightarrow> handler \<Rightarrow> result" where
  "handle_index_page lib h =
     (let content = PAGE_TEMPLATE STREAM_WIDTH STREAM_HEIGHT
      in and_then
           (end_headers
              (send_header ''Content-Length'' (py_str (length content))
                 (send_header ''Content-Type'' ''text/html'' (send_response lib 200 h))))
           (wfile_write content))"

definition send_no_cache_headers :: "handler \<Rightarrow> handler" where
  "send_no_cache_headers h =
     send_header ''Pragma'' ''no-cache''
       (send_header ''Cache-Control'' ''no-cache, private''
          (send_header ''Age'' (py_str 0) h))"

text \<open>
  \<open>stream_video_frames\<close> never returns by itself. Entering it puts the thread at the top
  of its loop; the loop's iterations are steps of the whole system (below), since each one
  waits on the shared condition.
\<close>

definition stream_video_frames :: "handler \<Rightarrow> result" where
  "stream_video_frames h = Inr (h\<lparr>pc := Ready\<rparr>)"

definition handle_mjpeg_stream :: "httplib \<Rightarrow> handler \<Rightarrow> result" where
  "handle_mjpeg_stream lib h =
     and_then
       (end_headers
          (send_header ''Content-Type'' ''multipart/x-mixed-replace; boundary=FRAME''
             (send_no_cache_headers (send_response lib 200 h))))
       stream_video_frames"

definition do_GET :: "httplib \<Rightarrow> handler \<Rightarrow> result" where
  "do_GET lib h =
     (if path h = ''/'' then redirect_to_index lib h
      else if path h = ''/index.html'' then handle_index_page lib h
      else if path h = ''/stream.mjpg'' then handle_mjpeg_stream lib h
      else send_error lib 404 h)"

text \<open>
  The body of the frame loop after \<open>frame = output.frame\<close>: the six statements that send
  one part. \<open>len(frame)\<close> raises \<open>TypeError\<close> when \<open>frame\<close> is \<open>None\<close>; by then the
  boundary line is written and \<open>send_header\<close> has been called for \<open>Content-Type\<close>.
\<close>

definition no_len :: string where
  "no_len = ''object of type '' @ [CHR 0x27] @ ''NoneType'' @ [CHR 0x27] @ '' has no len()''"

definition send_frame :: "bytes option \<Rightarrow> handler \<Rightarrow> result" where
  "send_frame frame h =
     and_then (wfile_write (''--FRAME'' @ CRLF) h) (\<lambda>h1.
       let h2 = send_header ''Content-Type'' ''image/jpeg'' h1
       in case frame of
            None \<Rightarrow> Inl (TypeError no_len, h2)
          | Some f \<Rightarrow>
              and_then (end_headers (send_header ''Content-Length'' (py_str (length f)) h2)) (\<lambda>h3.
                and_then (wfile_write f h3) (\<lambda>h4. wfile_write CRLF h4)))"

text \<open>
  The \<open>try\<close> around the loop: a part sent puts the thread back at the top of the loop; any
  exception ends the loop with one \<open>logging.warning\<close>.
\<close>

datatype level = DEBUG | INFO | WARNING | ERROR | CRITICAL

definition stream_iteration :: "bytes option \<Rightarrow> handler \<Rightarrow> handler \<times> (level \<times> string) list" where
  "stream_iteration frame h =
     (case send_frame frame h of
        Inr h' \<Rightarrow> (h'\<lparr>pc := Ready\<rparr>, [])
      | Inl (e, h') \<Rightarrow> (h'\<lparr>pc := Closed\<rparr>, [(WARNING, ''Streaming interrupted: '' @ str_exn e)]))"

section \<open>The shared frame and the threads around it\<close>

text \<open>
  \<open>StreamingOutput\<close> holds the current frame and a \<open>threading.Condition\<close>. Of the
  condition the model keeps its list of waiters: the connections whose threads are blocked
  in \<open>wait()\<close>. There is no other field.
\<close>

record StreamingOutput =
  frame :: "bytes option"
  condition :: "nat list"

text \<open>
  The whole program: the one global \<open>output\<close>, the handler of every connection accepted so
  far, and what \<open>logging\<close> has received.
\<close>

record system =
  the_output :: StreamingOutput
  handlers :: "nat \<rightharpoonup> handler"
  logged :: "(level \<times> string) list"

definition main :: system where
  "main = \<lparr>the_output = \<lparr>frame = None, condition = []\<rparr>, handlers = Map.empty,
           logged = []\<rparr>"

text \<open>
  \<open>notify_all()\<close> releases every waiter in the condition's list; the released thread's
  \<open>wait()\<close> can then return.
\<close>

fun notify_all :: "nat list \<Rightarrow> (nat \<rightharpoonup> handler) \<Rightarrow> (nat \<rightharpoonup> handler)" where
  "notify_all [] hs = hs"
| "notify_all (c # cs) hs =
     notify_all cs (case hs c of None \<Rightarrow> hs | Some h \<Rightarrow> hs(c \<mapsto> h\<lparr>pc := Woken\<rparr>))"

text \<open>
  \<open>StreamingOutput.write(buf)\<close>, all of it under the condition's lock:
  \<open>self.frame = buf\<close>, then \<open>self.condition.notify_all()\<close>.
\<close>

definition output_write :: "bytes \<Rightarrow> system \<Rightarrow> system" where
  "output_write buf s =
     s\<lparr>the_output := \<lparr>frame = Some buf, condition = []\<rparr>,
       handlers := notify_all (condition (the_output s)) (handlers s)\<rparr>"

text \<open>
  A thread at the top of the loop takes the lock and calls \<open>wait()\<close>, which puts it on the
  waiters' list and releases the lock.
\<close>

definition wait :: "nat \<Rightarrow> handler \<Rightarrow> system \<Rightarrow> system" where
  "wait c h s =
     s\<lparr>the_output := (the_output s)\<lparr>condition := condition (the_output s) @ [c]\<rparr>,
       handlers := (handlers s)(c \<mapsto> h\<lparr>pc := Parked\<rparr>)\<rparr>"

text \<open>
  A released thread takes the lock again, reads \<open>output.frame\<close>, leaves the \<open>with\<close> block
  and sends the part. Only the read is under the lock; the writes touch nothing but the
  thread's own handler.
\<close>

definition resume :: "nat \<Rightarrow> handler \<Rightarrow> system \<Rightarrow> system" where
  "resume c h s =
     (case stream_iteration (frame (the_output s)) h of
        (h', w) \<Rightarrow> s\<lparr>handlers := (handlers s)(c \<mapsto> h'), logged := logged s @ w\<rparr>)"

text \<open>
  A new connection: \<open>do_GET\<close> runs up to its return, or up to the top of the frame loop.
\<close>

definition new_handler :: "string \<Rightarrow> string \<Rightarrow> (nat \<times> exn) option \<Rightarrow> handler" where
  "new_handler p v pr =
     \<lparr>path = p, request_version = v, headers_buffer = [], wfile = [], peer = pr,
      pc = Routing\<rparr>"

definition serve :: "httplib \<Rightarrow> handler \<Rightarrow> handler" where
  "serve lib h =
     (case do_GET lib h of
        Inl (e, h') \<Rightarrow> h'\<lparr>pc := Crashed e\<rparr>
      | Inr h' \<Rightarrow> (if pc h' = Routing then h'\<lparr>pc := Returned\<rparr> else h'))"

text \<open>
  What can happen next:
  \<^item> \<open>Request c p v pr\<close>: a GET for path \<open>p\<close> with protocol version \<open>v\<close> arrives on
    a new connection \<open>c\<close> whose peer behaves as \<open>pr\<close>;
  \<^item> \<open>Capture buf\<close>: the encoder's thread calls \<open>output.write(buf)\<close>;
  \<^item> \<open>Run c\<close>: the thread of connection \<open>c\<close> runs up to its next wait or read;
  \<^item> \<open>Spurious c\<close>: the \<open>wait()\<close> of connection \<open>c\<close> returns though nobody notified
    it. CPython's \<open>Condition\<close> never does this; the event is here to say what the loop
    would do if it happened.
  \<open>step\<close> is \<open>None\<close> where the event cannot happen: the thread is blocked or gone, or
  the connection number is taken. Each \<open>with output.condition\<close> section is one step: the
  lock keeps every other thread out of it.
\<close>

datatype event =
  Request nat string string "(nat \<times> exn) option"
| Capture bytes
| Run nat
| Spurious nat

fun step :: "httplib \<Rightarrow> event \<Rightarrow> system \<Rightarrow> system option" where
  "step lib (Request c p v pr) s =
     (case handlers s c of
        Some h \<Rightarrow> None
      | None \<Rightarrow>
          Some (s\<lparr>handlers := (handlers s)(c \<mapsto> serve lib (new_handler p v pr))\<rparr>))"
| "step lib (Capture buf) s = Some (output_write buf s)"
| "step lib (Run c) s =
     (case handlers s c of
        None \<Rightarrow> None
      | Some h \<Rightarrow>
          (case pc h of
             Ready \<Rightarrow> Some (wait c h s)
           | Woken \<Rightarrow> Some (resume c h s)
           | _ \<Rightarrow> None))"
| "step lib (Spurious c) s =
     (case handlers s c of
        None \<Rightarrow> None
      | Some h \<Rightarrow>
          (if pc h = Parked
           then Some (s\<lparr>the_output :=
                          (the_output s)\<lparr>condition := removeAll c (condition (the_output s))\<rparr>,
                        handlers := (handlers s)(c \<mapsto> h\<lparr>pc := Woken\<rparr>)\<rparr>)
           else None))"

fun run :: "httplib \<Rightarrow> event list \<Rightarrow> system \<Rightarrow> system option" where
  "run lib [] s = Some s"
| "run lib (e # es) s = (case step lib e s of None \<Rightarrow> None | Some s' \<Rightarrow> run lib es s')"

subsection \<open>What a connection reads, and when\<close>

text \<open>
  The program numbers nothing. To speak about the order of what a connection receives, the
  frames published so far are counted from outside: \<open>published\<close> collects them along a
  run, and \<open>reads\<close> lists, for every \<open>frame = output.frame\<close> that connection \<open>c\<close>
  executes, the frames published up to that moment together with the value read.
\<close>

fun captured :: "event \<Rightarrow> bytes list" where
  "captured (Capture buf) = [buf]"
| "captured _ = []"

definition published :: "event list \<Rightarrow> bytes list" where
  "published evs = concat (map captured evs)"

definition phase_of :: "system \<Rightarrow> nat \<Rightarrow> phase option" where
  "phase_of s c = map_option pc (handlers s c)"

fun reads :: "httplib \<Rightarrow> nat \<Rightarrow> bytes list \<Rightarrow> event list \<Rightarrow> system
    \<Rightarrow> (bytes list \<times> bytes option) list" where
  "reads lib c pub [] s = []"
| "reads lib c pub (e # es) s =
     (case step lib e s of
        None \<Rightarrow> []
      | Some s' \<Rightarrow>
          (if e = Run c \<and> phase_of s c = Some Woken then [(pub, frame (the_output s))]
           else [])
          @ reads lib c (pub @ captured e) es s')"

definition last_opt :: "'a list \<Rightarrow> 'a option" where
  "last_opt xs = (if xs = [] then None else Some (last xs))"

subsection \<open>Auxiliary notions\<close>

text \<open>\<open>takes n h\<close>: the peer of \<open>h\<close> accepts at least \<open>n\<close> more writes.\<close>

definition takes :: "nat \<Rightarrow> handler \<Rightarrow> bool" where
  "takes n h = (case peer h of None \<Rightarrow> True | Some (k, e) \<Rightarrow> n \<le> k)"

definition spend :: "nat \<Rightarrow> handler \<Rightarrow> handler" where
  "spend n h = h\<lparr>peer := map_option (\<lambda>(k, e). (k - n, e)) (peer h)\<rparr>"

text \<open>The phases of the frame loop.\<close>

definition looping :: "phase \<Rightarrow> bool" where
  "looping p = (p = Ready \<or> p = Parked \<or> p = Woken)"

text \<open>
  What every reachable state satisfies: a thread in the frame loop has an empty header
  buffer, and the condition's list of waiters holds exactly the parked threads.
\<close>

definition loop_inv :: "system \<Rightarrow> bool" where
  "loop_inv s \<longleftrightarrow>
     (\<forall>c h. handlers s c = Some h \<longrightarrow>
        (looping (pc h) \<longrightarrow> headers_buffer h = [])
        \<and> (c \<in> set (condition (the_output s)) \<longleftrightarrow> pc h = Parked))
     \<and> (\<forall>c \<in> set (condition (the_output s)). handlers s c \<noteq> None)"

text \<open>
  What \<open>send_response(code)\<close> puts into the header buffer of a request that is not
  HTTP/0.9.
\<close>

definition response_head :: "httplib \<Rightarrow> nat \<Rightarrow> bytes" where
  "response_head lib code =
     status_line lib code @ ''Server: '' @ version_string lib @ CRLF
     @ ''Date: '' @ date_time_string lib @ CRLF"

text \<open>The socket writes of one part: three, and the flush of the part's headers.\<close>

definition part_writes :: "handler \<Rightarrow> nat" where
  "part_writes h = (if request_version h \<noteq> ''HTTP/0.9'' then 4 else 3)"

text \<open>
  One instance of the library's parameters, for running the model on concrete requests.
\<close>

definition plain_lib :: httplib where
  "plain_lib =
     \<lparr>status_line = (\<lambda>code. ''HTTP/1.0 '' @ py_str code @ CRLF),
      version_string = ''BaseHTTP/0.6 Python/3.12'',
      date_time_string = ''Thu, 01 Jan 1970 00:00:00 GMT'',
      error_body = (\<lambda>code. ''Error '' @ py_str code)\<rparr>"

text \<open>The head of the streaming response: what is written before the first part.\<close>

definition stream_head :: "httplib \<Rightarrow> bytes" where
  "stream_head lib =
     response_head lib 200 @ ''Age: 0'' @ CRLF
     @ ''Cache-Control: no-cache, private'' @ CRLF @ ''Pragma: no-cache'' @ CRLF
     @ ''Content-Type: multipart/x-mixed-replace; boundary=FRAME'' @ CRLF @ CRLF"

text \<open>
  An HTTP/1.1 connection that has received the head of the stream and whose \<open>wait()\<close>
  is about to return, alone in a system whose current frame is \<open>fr\<close>; its peer behaves
  as \<open>pr\<close>.
\<close>

definition woken_handler :: "(nat \<times> exn) option \<Rightarrow> handler" where
  "woken_handler pr =
     \<lparr>path = ''/stream.mjpg'', request_version = ''HTTP/1.1'', headers_buffer = [],
      wfile = stream_head plain_lib, peer = pr, pc = Woken\<rparr>"

definition woken_state :: "bytes option \<Rightarrow> (nat \<times> exn) option \<Rightarrow> system" where
  "woken_state fr pr =
     \<lparr>the_output = \<lparr>frame = fr, condition = []\<rparr>, handlers = [0 \<mapsto> woken_handler pr],
      logged = []\<rparr>"

section \<open>The lock of the condition and sockets that do not take data\<close>

text \<open>
  The steps above take each \<open>with output.condition\<close> section as a whole and never let a
  write wait. To say who can keep the producer waiting, the same loop is cut finer here:
  the lock of the condition has an owner, a thread has to take the lock before
  \<open>wait()\<close> and again when \<open>wait()\<close> returns, and a socket whose peer does not read
  takes no data, so that a thread writing to it stays where it is.

  Where a thread of the frame loop stands:
  \<^item> \<open>AtWith\<close>: at \<open>with output.condition\<close>, asking for the lock;
  \<^item> \<open>AtWait\<close>: holding the lock, about to call \<open>wait()\<close>;
  \<^item> \<open>InWait\<close>: inside \<open>wait()\<close>, the lock released, not yet notified;
  \<^item> \<open>Reacquire\<close>: notified, inside \<open>wait()\<close>, asking for the lock again;
  \<^item> \<open>AtRead\<close>: holding the lock, about to execute \<open>frame = output.frame\<close> and to
    leave the \<open>with\<close> block;
  \<^item> \<open>Sending fr\<close>: outside the \<open>with\<close> block with the local \<open>frame\<close> equal to
    \<open>fr\<close>, writing the part;
  \<^item> \<open>Gone\<close>: the handler has returned or raised.
\<close>

datatype place = AtWith | AtWait | InWait | Reacquire | AtRead | Sending "bytes option" | Gone

text \<open>
  \<open>owner\<close> is the connection whose thread holds the lock of \<open>output.condition\<close>;
  \<open>stalled\<close> are the connections whose sockets take no data at the moment. The producer
  holds the lock only inside \<open>write\<close>, which is one step.
\<close>

record locked_system =
  shared :: StreamingOutput
  owner :: "nat option"
  threads :: "nat \<rightharpoonup> place \<times> handler"
  stalled :: "nat set"
  warnings :: "(level \<times> string) list"

definition locked_main :: locked_system where
  "locked_main =
     \<lparr>shared = \<lparr>frame = None, condition = []\<rparr>, owner = None, threads = Map.empty,
      stalled = {}, warnings = []\<rparr>"

text \<open>\<open>notify_all()\<close>: every waiter on the list may go on to take the lock again.\<close>

fun release_all :: "nat list \<Rightarrow> (nat \<rightharpoonup> place \<times> handler) \<Rightarrow> (nat \<rightharpoonup> place \<times> handler)" where
  "release_all [] ts = ts"
| "release_all (c # cs) ts =
     release_all cs (case ts c of None \<Rightarrow> ts | Some (pl, h) \<Rightarrow> ts(c \<mapsto> (Reacquire, h)))"

definition enter_loop :: "handler \<Rightarrow> place \<times> handler" where
  "enter_loop h = (if pc h = Ready then AtWith else Gone, h)"

text \<open>
  The events:
  \<^item> \<open>Arrive c p v pr\<close>: a request on a new connection, handled up to the frame loop;
  \<^item> \<open>Publish buf\<close>: the producer calls \<open>output.write(buf)\<close>: it takes the lock, stores
    the frame, notifies all waiters and releases the lock. Nothing in between can wait, so
    the call is one step, and it can be taken when the lock is free;
  \<^item> \<open>Go c\<close>: the thread of connection \<open>c\<close> executes its next statement. Taking the lock
    needs the lock to be free; a thread inside \<open>wait()\<close> that nobody has notified cannot
    go; the part is sent in one step, which cannot be taken while the socket is stalled;
  \<^item> \<open>Stall c\<close>, \<open>Drain c\<close>: the peer of \<open>c\<close> stops and resumes reading.
\<close>

datatype locked_event =
  Arrive nat string string "(nat \<times> exn) option"
| Publish bytes
| Go nat
| Stall nat
| Drain nat

fun locked_step :: "httplib \<Rightarrow> locked_event \<Rightarrow> locked_system \<Rightarrow> locked_system option" where
  "locked_step lib (Arrive c p v pr) s =
     (case threads s c of
        Some t \<Rightarrow> None
      | None \<Rightarrow>
          Some (s\<lparr>threads := (threads s)(c \<mapsto> enter_loop (serve lib (new_handler p v pr)))\<rparr>))"
| "locked_step lib (Publish buf) s =
     (case owner s of
        Some c \<Rightarrow> None
      | None \<Rightarrow>
          Some (s\<lparr>shared := \<lparr>frame = Some buf, condition = []\<rparr>,
                  threads := release_all (condition (shared s)) (threads s)\<rparr>))"
| "locked_step lib (Go c) s =
     (case threads s c of
        None \<Rightarrow> None
      | Some (pl, h) \<Rightarrow>
          (case pl of
             AtWith \<Rightarrow>
               (case owner s of
                  Some c' \<Rightarrow> None
                | None \<Rightarrow> Some (s\<lparr>owner := Some c, threads := (threads s)(c \<mapsto> (AtWait, h))\<rparr>))
           | AtWait \<Rightarrow>
               Some (s\<lparr>shared := (shared s)\<lparr>condition := condition (shared s) @ [c]\<rparr>,
                       owner := None, threads := (threads s)(c \<mapsto> (InWait, h))\<rparr>)
           | InWait \<Rightarrow> None
           | Reacquire \<Rightarrow>
               (case owner s of
                  Some c' \<Rightarrow> None
                | None \<Rightarrow> Some (s\<lparr>owner := Some c, threads := (threads s)(c \<mapsto> (AtRead, h))\<rparr>))
           | AtRead \<Rightarrow>
               Some (s\<lparr>owner := None,
                       threads := (threads s)(c \<mapsto> (Sending (frame (shared s)), h))\<rparr>)
           | Sending fr \<Rightarrow>
               (if c \<in> stalled s then None
                else (case stream_iteration fr h of
                        (h', w) \<Rightarrow>
                          Some (s\<lparr>threads := (threads s)(c \<mapsto> enter_loop h'),
                                  warnings := warnings s @ w\<rparr>)))
           | Gone \<Rightarrow> None))"
| "locked_step lib (Stall c) s = Some (s\<lparr>stalled := insert c (stalled s)\<rparr>)"
| "locked_step lib (Drain c) s = Some (s\<lparr>stalled := stalled s - {c}\<rparr>)"

fun locked_run :: "httplib \<Rightarrow> locked_event list \<Rightarrow> locked_system \<Rightarrow> locked_system option" where
  "locked_run lib [] s = Some s"
| "locked_run lib (e # es) s =
     (case locked_step lib e s of None \<Rightarrow> None | Some s' \<Rightarrow> locked_run lib es s')"

text \<open>
  What the owner of the lock has to do before the lock is free: nothing when nobody holds
  it, and one statement otherwise.
\<close>

definition leave :: "locked_system \<Rightarrow> locked_event list" where
  "leave s = (case owner s of None \<Rightarrow> [] | Some c \<Rightarrow> [Go c])"

text \<open>The thread that holds the lock stands at one of the two statements under it.\<close>

definition owner_inv :: "locked_system \<Rightarrow> bool" where
  "owner_inv s \<longleftrightarrow>
     (\<forall>c. owner s = Some c \<longrightarrow>
        (\<exists>h. threads s c = Some (AtWait, h) \<or> threads s c = Some (AtRead, h)))"

section \<open>Properties of the handler\<close>

lemma py_int_snoc: "py_int (s @ [c]) = 10 * py_int s + (of_char c - 48)"
  by (simp add: py_int_def)

lemma of_char_digit: "d < 10 \<Longrightarrow> of_char (digit d) = 48 + d"
  by (simp add: digit_def)

lemma py_int_py_str: "py_int (py_str n) = n"
proof (induction n rule: py_str.induct)
  case (1 n)
  show ?case
  proof (cases "n < 10")
    case True
    then show ?thesis
      by (simp add: py_str.simps [of n] py_int_def of_char_digit)
  next
    case False
    with 1 have "py_int (py_str (n div 10)) = n div 10" by simp
    with False show ?thesis
      by (simp add: py_str.simps [of n] py_int_snoc of_char_digit)
  qed
qed

lemma py_str_0: "py_str 0 = ''0''"
  by code_simp

lemma wfile_write_takes:
  "takes (Suc n) h \<Longrightarrow> wfile_write b h = Inr (spend 1 h\<lparr>wfile := wfile h @ b\<rparr>)"
  by (auto simp: takes_def wfile_write_def spend_def split: option.splits nat.splits)

lemma takes_spend [simp]: "takes (Suc n) h \<Longrightarrow> takes n (spend 1 h)"
  by (auto simp: takes_def spend_def split: option.splits)

lemma takes_less: "takes (Suc n) h \<Longrightarrow> takes n h"
  by (auto simp: takes_def split: option.splits)

lemma spend_simps [simp]:
  "wfile (spend n h) = wfile h"
  "pc (spend n h) = pc h"
  "path (spend n h) = path h"
  "request_version (spend n h) = request_version h"
  "headers_buffer (spend n h) = headers_buffer h"
  by (simp_all add: spend_def)

lemma wfile_write_Inr:
  "wfile_write b h = Inr h' \<Longrightarrow>
     wfile h' = wfile h @ b \<and> headers_buffer h' = headers_buffer h \<and> pc h' = pc h
     \<and> path h' = path h \<and> request_version h' = request_version h"
  by (auto simp: wfile_write_def split: option.splits nat.splits)

lemma send_header_simps [simp]:
  "wfile (send_header k v h) = wfile h"
  "peer (send_header k v h) = peer h"
  "pc (send_header k v h) = pc h"
  "path (send_header k v h) = path h"
  "request_version (send_header k v h) = request_version h"
  by (simp_all add: send_header_def)

lemma send_header_buffer [simp]:
  "request_version h \<noteq> ''HTTP/0.9'' \<Longrightarrow>
     headers_buffer (send_header k v h) = headers_buffer h @ k @ '': '' @ v @ CRLF"
  by (simp add: send_header_def)

lemma send_header_old [simp]: "request_version h = ''HTTP/0.9'' \<Longrightarrow> send_header k v h = h"
  by (simp add: send_header_def)

lemma send_response_simps [simp]:
  "wfile (send_response lib code h) = wfile h"
  "peer (send_response lib code h) = peer h"
  "pc (send_response lib code h) = pc h"
  "path (send_response lib code h) = path h"
  "request_version (send_response lib code h) = request_version h"
  by (simp_all add: send_response_def send_response_only_def)

lemma send_response_buffer [simp]:
  "request_version h \<noteq> ''HTTP/0.9'' \<Longrightarrow>
     headers_buffer (send_response lib code h) = headers_buffer h @ response_head lib code"
  by (simp add: send_response_def send_response_only_def response_head_def)

lemma send_response_old [simp]:
  "request_version h = ''HTTP/0.9'' \<Longrightarrow> send_response lib code h = h"
  by (simp add: send_response_def send_response_only_def)

lemma send_no_cache_headers_simps [simp]:
  "wfile (send_no_cache_headers h) = wfile h"
  "peer (send_no_cache_headers h) = peer h"
  "pc (send_no_cache_headers h) = pc h"
  "path (send_no_cache_headers h) = path h"
  "request_version (send_no_cache_headers h) = request_version h"
  by (simp_all add: send_no_cache_headers_def)

lemma send_no_cache_headers_buffer [simp]:
  "request_version h \<noteq> ''HTTP/0.9'' \<Longrightarrow>
     headers_buffer (send_no_cache_headers h) =
       headers_buffer h @ ''Age: 0'' @ CRLF
       @ ''Cache-Control: no-cache, private'' @ CRLF @ ''Pragma: no-cache'' @ CRLF"
  by (simp add: send_no_cache_headers_def py_str_0)

lemma send_no_cache_headers_old [simp]:
  "request_version h = ''HTTP/0.9'' \<Longrightarrow> send_no_cache_headers h = h"
  by (simp add: send_no_cache_headers_def)

lemma takes_upd [simp]:
  "takes n (h\<lparr>wfile := w\<rparr>) = takes n h"
  "takes n (h\<lparr>headers_buffer := b\<rparr>) = takes n h"
  "takes n (h\<lparr>pc := p\<rparr>) = takes n h"
  "takes n (send_header k v h) = takes n h"
  "takes n (send_response lib code h) = takes n h"
  "takes n (send_no_cache_headers h) = takes n h"
  by (simp_all add: takes_def)

lemma end_headers_old [simp]: "request_version h = ''HTTP/0.9'' \<Longrightarrow> end_headers h = Inr h"
  by (simp add: end_headers_def)

lemma end_headers_takes:
  "request_version h \<noteq> ''HTTP/0.9'' \<Longrightarrow> takes (Suc n) h \<Longrightarrow>
     end_headers h
       = Inr (spend 1 h\<lparr>wfile := wfile h @ headers_buffer h @ CRLF, headers_buffer := []\<rparr>)"
  by (simp add: end_headers_def flush_headers_def and_then_def wfile_write_takes spend_def)

lemma end_headers_Inr:
  "end_headers h = Inr h' \<Longrightarrow>
     wfile h' = wfile h @ (if request_version h \<noteq> ''HTTP/0.9'' then headers_buffer h @ CRLF else [])
     \<and> headers_buffer h' = (if request_version h \<noteq> ''HTTP/0.9'' then [] else headers_buffer h)
     \<and> pc h' = pc h \<and> path h' = path h \<and> request_version h' = request_version h"
  by (auto simp: end_headers_def flush_headers_def and_then_def
      split: sum.splits if_splits dest!: wfile_write_Inr)

lemma send_frame_Inr:
  assumes "send_frame (Some f) h = Inr h'" and "headers_buffer h = []"
  shows "wfile h' = wfile h @ ''--FRAME'' @ CRLF
           @ (if request_version h \<noteq> ''HTTP/0.9''
              then ''Content-Type: image/jpeg'' @ CRLF
                   @ ''Content-Length: '' @ py_str (length f) @ CRLF @ CRLF
              else [])
           @ f @ CRLF"
    and "headers_buffer h' = []" and "pc h' = pc h"
proof -
  from assms(1) obtain h1 h3 h4 where
    1: "wfile_write (''--FRAME'' @ CRLF) h = Inr h1" and
    3: "end_headers (send_header ''Content-Length'' (py_str (length f))
          (send_header ''Content-Type'' ''image/jpeg'' h1)) = Inr h3" and
    4: "wfile_write f h3 = Inr h4" and
    5: "wfile_write CRLF h4 = Inr h'"
    by (auto simp: send_frame_def and_then_def Let_def split: sum.splits)
  note a = wfile_write_Inr [OF 1] end_headers_Inr [OF 3] wfile_write_Inr [OF 4]
    wfile_write_Inr [OF 5]
  show "wfile h' = wfile h @ ''--FRAME'' @ CRLF
           @ (if request_version h \<noteq> ''HTTP/0.9''
              then ''Content-Type: image/jpeg'' @ CRLF
                   @ ''Content-Length: '' @ py_str (length f) @ CRLF @ CRLF
              else [])
           @ f @ CRLF"
    using a assms(2) by (cases "request_version h = ''HTTP/0.9''") simp_all
  show "headers_buffer h' = []"
    using a assms(2) by (cases "request_version h = ''HTTP/0.9''") simp_all
  from a show "pc h' = pc h" by simp
qed

lemma send_frame_takes:
  assumes "takes 4 h"
  shows "\<exists>h'. send_frame (Some f) h = Inr h'"
proof -
  have t: "takes (Suc 3) h" using assms by (simp add: numeral_eq_Suc)
  let ?h1 = "spend 1 h\<lparr>wfile := wfile h @ ''--FRAME'' @ CRLF\<rparr>"
  have 1: "wfile_write (''--FRAME'' @ CRLF) h = Inr ?h1"
    by (rule wfile_write_takes [OF t])
  have t1: "takes (Suc 2) ?h1" using takes_spend [OF t] by (simp add: numeral_eq_Suc)
  let ?h2 = "send_header ''Content-Length'' (py_str (length f))
          (send_header ''Content-Type'' ''image/jpeg'' ?h1)"
  have t2: "takes (Suc 2) ?h2" using t1 by simp
  obtain h3 where 3: "end_headers ?h2 = Inr h3" and t3: "takes (Suc 1) h3"
  proof (cases "request_version h = ''HTTP/0.9''")
    case True
    then have "end_headers ?h2 = Inr ?h2" by simp
    moreover have "takes (Suc 1) ?h2" using takes_less [OF t2] by (simp add: numeral_eq_Suc)
    ultimately show ?thesis using that by blast
  next
    case False
    then have "request_version ?h2 \<noteq> ''HTTP/0.9''" by simp
    from end_headers_takes [OF this t2] takes_spend [OF t2] show ?thesis
      using that by (simp add: numeral_eq_Suc)
  qed
  obtain h4 where 4: "wfile_write f h3 = Inr h4" and t4: "takes (Suc 0) h4"
    using wfile_write_takes [OF t3] takes_spend [OF t3] by simp
  obtain h5 where 5: "wfile_write CRLF h4 = Inr h5"
    using wfile_write_takes [OF t4] by simp
  show ?thesis
    unfolding send_frame_def and_then_def Let_def 1 sum.case option.case 3 4 5 by blast
qed

lemma send_frame_fails:
  assumes "peer h = Some (k, e)" and "k < part_writes h"
  shows "\<exists>h'. send_frame (Some f) h = Inl (e, h')"
proof (cases "request_version h = ''HTTP/0.9''")
  case True
  with assms(2) have "k < 3" by (simp add: part_writes_def)
  then consider "k = 0" | "k = 1" | "k = 2" by linarith
  then show ?thesis
  proof cases
    case 1
    with assms(1) show ?thesis
      by (simp add: send_frame_def and_then_def wfile_write_def)
  next
    case 2
    with assms(1) True show ?thesis
      by (simp add: send_frame_def and_then_def wfile_write_def end_headers_def send_header_def)
  next
    case 3
    with assms(1) True show ?thesis
      by (simp add: send_frame_def and_then_def wfile_write_def end_headers_def send_header_def)
  qed
next
  case False
  with assms(2) have "k < 4" by (simp add: part_writes_def)
  then consider "k = 0" | "k = 1" | "k = 2" | "k = 3" by linarith
  then show ?thesis
  proof cases
    case 1
    with assms(1) show ?thesis
      by (simp add: send_frame_def and_then_def wfile_write_def)
  next
    case 2
    with assms(1) False show ?thesis
      by (simp add: send_frame_def and_then_def wfile_write_def end_headers_def
          flush_headers_def send_header_def)
  next
    case 3
    with assms(1) False show ?thesis
      by (simp add: send_frame_def and_then_def wfile_write_def end_headers_def
          flush_headers_def send_header_def)
  next
    case 4
    with assms(1) False show ?thesis
      by (simp add: send_frame_def and_then_def wfile_write_def end_headers_def
          flush_headers_def send_header_def)
  qed
qed

section \<open>Invariants of the system\<close>

lemma notify_all_apply:
  "notify_all cs hs c =
     (if c \<in> set cs then map_option (\<lambda>h. h\<lparr>pc := Woken\<rparr>) (hs c) else hs c)"
proof (induction cs arbitrary: hs)
  case Nil
  show ?case by simp
next
  case (Cons a cs)
  show ?case
    by (cases "hs a") (auto simp: Cons.IH option.map_comp comp_def split: option.splits)
qed

lemma redirect_to_index_pc: "redirect_to_index lib h = Inr h' \<Longrightarrow> pc h' = pc h"
  by (auto simp: redirect_to_index_def dest!: end_headers_Inr)

lemma handle_index_page_pc: "handle_index_page lib h = Inr h' \<Longrightarrow> pc h' = pc h"
  by (auto simp: handle_index_page_def and_then_def Let_def split: sum.splits
      dest!: end_headers_Inr wfile_write_Inr)

lemma send_error_pc: "send_error lib code h = Inr h' \<Longrightarrow> pc h' = pc h"
  by (auto simp: send_error_def and_then_def Let_def split: sum.splits if_splits
      dest!: end_headers_Inr wfile_write_Inr)

lemma handle_mjpeg_stream_Inr:
  assumes "headers_buffer h = []" and "handle_mjpeg_stream lib h = Inr h'"
  shows "pc h' = Ready \<and> headers_buffer h' = []"
proof (cases "request_version h = ''HTTP/0.9''")
  case True
  with assms show ?thesis
    by (auto simp: handle_mjpeg_stream_def and_then_def stream_video_frames_def)
next
  case False
  with assms(2) show ?thesis
    by (auto simp: handle_mjpeg_stream_def and_then_def stream_video_frames_def
        split: sum.splits dest!: end_headers_Inr)
qed

lemma do_GET_pc:
  "headers_buffer h = [] \<Longrightarrow> do_GET lib h = Inr h'
     \<Longrightarrow> pc h' = pc h \<or> (pc h' = Ready \<and> headers_buffer h' = [])"
  by (auto simp: do_GET_def split: if_splits
      dest: redirect_to_index_pc handle_index_page_pc send_error_pc handle_mjpeg_stream_Inr)

lemma serve_loop:
  "pc h = Routing \<Longrightarrow> headers_buffer h = [] \<Longrightarrow> looping (pc (serve lib h))
     \<Longrightarrow> headers_buffer (serve lib h) = []"
  by (auto simp: serve_def looping_def split: sum.splits prod.splits if_splits dest: do_GET_pc)

lemma serve_pc:
  "pc h = Routing \<Longrightarrow> headers_buffer h = []
     \<Longrightarrow> pc (serve lib h) \<noteq> Parked \<and> pc (serve lib h) \<noteq> Woken"
  by (auto simp: serve_def split: sum.splits prod.splits if_splits dest: do_GET_pc)

lemma stream_iteration_loop:
  assumes "headers_buffer h = []" and "stream_iteration fr h = (h', w)" and "looping (pc h')"
  shows "headers_buffer h' = []"
proof (cases "send_frame fr h")
  case (Inl x)
  with assms show ?thesis
    by (auto simp: stream_iteration_def looping_def split: prod.splits)
next
  case (Inr h1)
  with assms(2) have h': "h' = h1\<lparr>pc := Ready\<rparr>" by (simp add: stream_iteration_def)
  from Inr obtain f where "fr = Some f"
    by (cases fr) (auto simp: send_frame_def and_then_def Let_def split: sum.splits)
  with Inr assms(1) have "headers_buffer h1 = []" by (simp add: send_frame_Inr(2))
  with h' show ?thesis by simp
qed

lemma stream_iteration_pc:
  "stream_iteration fr h = (h', w) \<Longrightarrow> pc h' = Ready \<or> pc h' = Closed"
  by (auto simp: stream_iteration_def split: sum.splits prod.splits)

lemma loop_inv_main: "loop_inv main"
  by (simp add: loop_inv_def main_def)

lemma loop_inv_step:
  assumes "loop_inv s" and "step lib e s = Some s'"
  shows "loop_inv s'"
proof (cases e)
  case (Request c p v pr)
  with assms(2) have none: "handlers s c = None" and
    s': "s' = s\<lparr>handlers := (handlers s)(c \<mapsto> serve lib (new_handler p v pr))\<rparr>"
    by (auto split: option.splits)
  from assms(1) none have "c \<notin> set (condition (the_output s))"
    by (auto simp: loop_inv_def)
  with assms(1) show ?thesis
    unfolding s' loop_inv_def
    using serve_loop [of "new_handler p v pr" lib] serve_pc [of "new_handler p v pr" lib]
    by (auto simp: new_handler_def)
next
  case (Capture buf)
  with assms(2) have s': "s' = output_write buf s" by simp
  from assms(1) show ?thesis
    unfolding s' loop_inv_def output_write_def
    by (auto simp: notify_all_apply looping_def split: if_splits)
next
  case (Run c)
  from assms(2) Run obtain h where h: "handlers s c = Some h"
    by (auto split: option.splits)
  show ?thesis
  proof (cases "pc h = Ready")
    case True
    with assms(2) Run h have s': "s' = wait c h s" by simp
    from assms(1) h True show ?thesis
      unfolding s' loop_inv_def wait_def by (auto simp: looping_def)
  next
    case False
    with assms(2) Run h have w: "pc h = Woken" and s': "s' = resume c h s"
      by (auto split: phase.splits)
    obtain h' lg where it: "stream_iteration (frame (the_output s)) h = (h', lg)"
      by (cases "stream_iteration (frame (the_output s)) h")
    from assms(1) h w have notin: "c \<notin> set (condition (the_output s))"
      and buf: "headers_buffer h = []"
      by (auto simp: loop_inv_def looping_def)
    from stream_iteration_loop [OF buf it] have "looping (pc h') \<Longrightarrow> headers_buffer h' = []" .
    moreover from stream_iteration_pc [OF it] have "pc h' \<noteq> Parked" by auto
    ultimately show ?thesis
      using assms(1) notin unfolding s' loop_inv_def resume_def it by auto
  qed
next
  case (Spurious c)
  with assms(2) obtain h where h: "handlers s c = Some h" and p: "pc h = Parked" and
    s': "s' = s\<lparr>the_output := (the_output s)\<lparr>condition := removeAll c (condition (the_output s))\<rparr>,
                 handlers := (handlers s)(c \<mapsto> h\<lparr>pc := Woken\<rparr>)\<rparr>"
    by (auto split: option.splits if_splits)
  from assms(1) h p show ?thesis
    unfolding s' loop_inv_def by (auto simp: looping_def)
qed

lemma loop_inv_run: "loop_inv s \<Longrightarrow> run lib evs s = Some s' \<Longrightarrow> loop_inv s'"
proof (induction evs arbitrary: s)
  case Nil
  then show ?case by simp
next
  case (Cons e evs)
  then show ?case by (auto split: option.splits dest: loop_inv_step)
qed

lemma loop_buffer_empty:
  "run lib evs main = Some s \<Longrightarrow> handlers s c = Some h \<Longrightarrow> looping (pc h)
     \<Longrightarrow> headers_buffer h = []"
  using loop_inv_run [OF loop_inv_main] by (auto simp: loop_inv_def)

section \<open>The claims\<close>

lemma resume_sent:
  assumes "handlers s c = Some h" and "pc h = Woken"
    and "send_frame (frame (the_output s)) h = Inr h'"
  shows "step lib (Run c) s = Some (s\<lparr>handlers := (handlers s)(c \<mapsto> h'\<lparr>pc := Ready\<rparr>),
           logged := logged s @ []\<rparr>)"
  using assms by (simp add: resume_def stream_iteration_def)

lemma resume_raised:
  assumes "handlers s c = Some h" and "pc h = Woken"
    and "send_frame (frame (the_output s)) h = Inl (e, h')"
  shows "step lib (Run c) s = Some (s\<lparr>handlers := (handlers s)(c \<mapsto> h'\<lparr>pc := Closed\<rparr>),
           logged := logged s @ [(WARNING, ''Streaming interrupted: '' @ str_exn e)]\<rparr>)"
  using assms by (simp add: resume_def stream_iteration_def)

lemmas eval_defs = main_def serve_def do_GET_def handle_mjpeg_stream_def and_then_def
  end_headers_def flush_headers_def wfile_write_def stream_video_frames_def new_handler_def
  wait_def output_write_def send_no_cache_headers_def send_header_def send_response_def
  send_response_only_def response_head_def woken_state_def woken_handler_def stream_head_def
  py_str_0 resume_def stream_iteration_def send_frame_def redirect_to_index_def
  handle_index_page_def send_error_def phase_of_def

text \<open>
  Claim C1, as stated, fails for a request line of two words, which the library accepts as
  HTTP/0.9: \<open>send_header\<close> and \<open>end_headers\<close> then do nothing, and the part is the
  boundary line, the frame and the closing line end, with neither header.
\<close>

theorem old_request_part_counterexample:
  "map_option (\<lambda>s. map_option wfile (handlers s 0))
     (run plain_lib
        [Request 0 ''/stream.mjpg'' ''HTTP/0.9'' None, Run 0, Capture ''JPEG'', Run 0] main)
   = Some (Some (''--FRAME'' @ CRLF @ ''JPEG'' @ CRLF))"
  by (simp add: eval_defs)

text \<open>
  Claim C1, amended. In every state the program can reach, when the \<open>wait()\<close> of a
  connection whose request was not HTTP/0.9 returns with the current frame \<open>f\<close> and the
  peer takes the four writes of the part, the bytes appended to the connection are the
  boundary line \<open>--FRAME\<close>, the header \<open>Content-Type: image/jpeg\<close>, the header
  \<open>Content-Length\<close> with the decimal numeral of \<open>length f\<close>, a blank line, the bytes
  of \<open>f\<close> and a closing line end, in this order, each line ended by CR LF; the numeral
  reads back as \<open>length f\<close>.
\<close>

theorem frame_part_bytes:
  assumes "run lib evs main = Some s" and "handlers s c = Some h" and "pc h = Woken"
    and "frame (the_output s) = Some f" and "takes 4 h"
    and "request_version h \<noteq> ''HTTP/0.9''"
  shows "\<exists>s' h'. step lib (Run c) s = Some s' \<and> handlers s' c = Some h' \<and> pc h' = Ready
           \<and> wfile h' = wfile h @ ''--FRAME'' @ CRLF
                @ ''Content-Type: image/jpeg'' @ CRLF
                @ ''Content-Length: '' @ py_str (length f) @ CRLF
                @ CRLF @ f @ CRLF
           \<and> py_int (py_str (length f)) = length f"
proof -
  from assms(1,2,3) have buf: "headers_buffer h = []"
    by (auto intro: loop_buffer_empty simp: looping_def)
  from send_frame_takes [OF assms(5)] obtain h' where sent: "send_frame (Some f) h = Inr h'"
    by blast
  from sent assms(4) have "send_frame (frame (the_output s)) h = Inr h'" by simp
  from resume_sent [OF assms(2,3) this]
  have st: "step lib (Run c) s = Some (s\<lparr>handlers := (handlers s)(c \<mapsto> h'\<lparr>pc := Ready\<rparr>),
           logged := logged s @ []\<rparr>)" .
  have w: "wfile (h'\<lparr>pc := Ready\<rparr>) = wfile h @ ''--FRAME'' @ CRLF
                @ ''Content-Type: image/jpeg'' @ CRLF
                @ ''Content-Length: '' @ py_str (length f) @ CRLF
                @ CRLF @ f @ CRLF"
    using send_frame_Inr(1) [OF sent buf] assms(6) by simp
  show ?thesis
    apply (rule exI [of _ "s\<lparr>handlers := (handlers s)(c \<mapsto> h'\<lparr>pc := Ready\<rparr>),
           logged := logged s @ []\<rparr>"])
    apply (rule exI [of _ "h'\<lparr>pc := Ready\<rparr>"])
    apply (simp only: st w py_int_py_str)
    apply simp
    done
qed

lemma run_woken_state:
  "run plain_lib [Request 0 ''/stream.mjpg'' ''HTTP/1.1'' None, Run 0, Capture ''JPEG''] main
     = Some (woken_state (Some ''JPEG'') None)"
  by (simp add: eval_defs)

theorem frame_part_bytes_witness:
  "run plain_lib [Request 0 ''/stream.mjpg'' ''HTTP/1.1'' None, Run 0, Capture ''JPEG''] main
     = Some (woken_state (Some ''JPEG'') None)
   \<and> handlers (woken_state (Some ''JPEG'') None) 0 = Some (woken_handler None)
   \<and> pc (woken_handler None) = Woken
   \<and> frame (the_output (woken_state (Some ''JPEG'') None)) = Some ''JPEG''
   \<and> takes 4 (woken_handler None)
   \<and> request_version (woken_handler None) \<noteq> ''HTTP/0.9''
   \<and> (\<exists>s' h'. step plain_lib (Run 0) (woken_state (Some ''JPEG'') None) = Some s'
         \<and> handlers s' 0 = Some h' \<and> pc h' = Ready
         \<and> wfile h' = wfile (woken_handler None) @ ''--FRAME'' @ CRLF
              @ ''Content-Type: image/jpeg'' @ CRLF
              @ ''Content-Length: '' @ py_str (length ''JPEG'') @ CRLF
              @ CRLF @ ''JPEG'' @ CRLF
         \<and> py_int (py_str (length ''JPEG'')) = length ''JPEG'')"
proof -
  have 1: "run plain_lib
      [Request 0 ''/stream.mjpg'' ''HTTP/1.1'' None, Run 0, Capture ''JPEG''] main
     = Some (woken_state (Some ''JPEG'') None)"
    by (rule run_woken_state)
  have 2: "handlers (woken_state (Some ''JPEG'') None) 0 = Some (woken_handler None)"
    by (simp add: woken_state_def)
  have 3: "pc (woken_handler None) = Woken" by (simp add: woken_handler_def)
  have 4: "frame (the_output (woken_state (Some ''JPEG'') None)) = Some ''JPEG''"
    by (simp add: woken_state_def)
  have 5: "takes 4 (woken_handler None)" by (simp add: takes_def woken_handler_def)
  have 6: "request_version (woken_handler None) \<noteq> ''HTTP/0.9''"
    by (simp add: woken_handler_def)
  from frame_part_bytes [OF 1 2 3 4 5 6] 1 2 3 4 5 6 show ?thesis by blast
qed

lemma stream_head_sent:
  assumes "headers_buffer h = []" and "takes 1 h" and "request_version h \<noteq> ''HTTP/0.9''"
  shows "\<exists>h'. handle_mjpeg_stream lib h = Inr h' \<and> pc h' = Ready \<and> headers_buffer h' = []
           \<and> wfile h' = wfile h @ stream_head lib"
proof -
  from assms(2) have t: "takes (Suc 0) h" by simp
  let ?h1 = "send_header ''Content-Type'' ''multipart/x-mixed-replace; boundary=FRAME''
               (send_no_cache_headers (send_response lib 200 h))"
  have t1: "takes (Suc 0) ?h1" using t by simp
  have v: "request_version ?h1 \<noteq> ''HTTP/0.9''" using assms(3) by simp
  from end_headers_takes [OF v t1] assms(1,3) show ?thesis
    by (simp add: handle_mjpeg_stream_def and_then_def stream_video_frames_def
        stream_head_def)
qed

text \<open>
  Claim C7, as stated, fails for an HTTP/0.9 request: \<open>send_response\<close>,
  \<open>send_header\<close> and \<open>end_headers\<close> do nothing, and the thread enters the frame loop
  with no status line and no header written.
\<close>

theorem old_request_head_counterexample:
  "handle_mjpeg_stream plain_lib (new_handler ''/stream.mjpg'' ''HTTP/0.9'' None)
   = Inr \<lparr>path = ''/stream.mjpg'', request_version = ''HTTP/0.9'', headers_buffer = [],
          wfile = [], peer = None, pc = Ready\<rparr>"
  by (simp add: eval_defs)

text \<open>
  Claim C7, amended. For a request that is not HTTP/0.9, \<open>handle_mjpeg_stream\<close>, started
  with an empty header buffer on a peer that takes one write, writes what
  \<open>send_response(200)\<close> gives (the status line and the library's own \<open>Server\<close> and
  \<open>Date\<close> headers), then the four headers \<open>Age: 0\<close>,
  \<open>Cache-Control: no-cache, private\<close>, \<open>Pragma: no-cache\<close> and
  \<open>Content-Type: multipart/x-mixed-replace; boundary=FRAME\<close> and the blank line that ends
  the headers, and nothing else; only then is the thread at the top of the frame loop.
\<close>

theorem stream_preamble:
  assumes "headers_buffer h = []" and "takes 1 h" and "request_version h \<noteq> ''HTTP/0.9''"
  shows "\<exists>h'. handle_mjpeg_stream lib h = Inr h' \<and> pc h' = Ready \<and> headers_buffer h' = []
           \<and> wfile h' = wfile h
                @ status_line lib 200
                @ ''Server: '' @ version_string lib @ CRLF
                @ ''Date: '' @ date_time_string lib @ CRLF
                @ ''Age: 0'' @ CRLF
                @ ''Cache-Control: no-cache, private'' @ CRLF
                @ ''Pragma: no-cache'' @ CRLF
                @ ''Content-Type: multipart/x-mixed-replace; boundary=FRAME'' @ CRLF
                @ CRLF"
  using stream_head_sent [OF assms, of lib] by (simp add: stream_head_def response_head_def)

theorem stream_preamble_witness:
  "headers_buffer (new_handler ''/stream.mjpg'' ''HTTP/1.1'' None) = []
   \<and> takes 1 (new_handler ''/stream.mjpg'' ''HTTP/1.1'' None)
   \<and> request_version (new_handler ''/stream.mjpg'' ''HTTP/1.1'' None) \<noteq> ''HTTP/0.9''
   \<and> (\<exists>h'. handle_mjpeg_stream plain_lib (new_handler ''/stream.mjpg'' ''HTTP/1.1'' None) = Inr h'
         \<and> pc h' = Ready \<and> headers_buffer h' = []
         \<and> wfile h' = wfile (new_handler ''/stream.mjpg'' ''HTTP/1.1'' None)
              @ status_line plain_lib 200
              @ ''Server: '' @ version_string plain_lib @ CRLF
              @ ''Date: '' @ date_time_string plain_lib @ CRLF
              @ ''Age: 0'' @ CRLF
              @ ''Cache-Control: no-cache, private'' @ CRLF
              @ ''Pragma: no-cache'' @ CRLF
              @ ''Content-Type: multipart/x-mixed-replace; boundary=FRAME'' @ CRLF
              @ CRLF)"
proof -
  have 1: "headers_buffer (new_handler ''/stream.mjpg'' ''HTTP/1.1'' None) = []"
    by (simp add: new_handler_def)
  have 2: "takes 1 (new_handler ''/stream.mjpg'' ''HTTP/1.1'' None)"
    by (simp add: takes_def new_handler_def)
  have 3: "request_version (new_handler ''/stream.mjpg'' ''HTTP/1.1'' None) \<noteq> ''HTTP/0.9''"
    by (simp add: new_handler_def)
  from stream_preamble [OF 1 2 3] 1 2 3 show ?thesis by blast
qed

lemma redirect_to_index_takes:
  assumes "headers_buffer h = []" and "takes 1 h" and "request_version h \<noteq> ''HTTP/0.9''"
  shows "\<exists>h'. redirect_to_index lib h = Inr h'
           \<and> wfile h' = wfile h @ response_head lib 301 @ ''Location: /index.html'' @ CRLF @ CRLF"
proof -
  let ?h1 = "send_header ''Location'' ''/index.html'' (send_response lib 301 h)"
  from assms(2) have t: "takes (Suc 0) ?h1" by simp
  have v: "request_version ?h1 \<noteq> ''HTTP/0.9''" using assms(3) by simp
  from end_headers_takes [OF v t] assms(1,3) show ?thesis
    by (simp add: redirect_to_index_def)
qed

lemma handle_index_page_takes:
  assumes "headers_buffer h = []" and "takes 2 h" and "request_version h \<noteq> ''HTTP/0.9''"
  shows "\<exists>h'. handle_index_page lib h = Inr h'
           \<and> wfile h' = wfile h @ response_head lib 200
                @ ''Content-Type: text/html'' @ CRLF
                @ ''Content-Length: '' @ py_str (length (PAGE_TEMPLATE STREAM_WIDTH STREAM_HEIGHT))
                @ CRLF @ CRLF @ PAGE_TEMPLATE STREAM_WIDTH STREAM_HEIGHT"
proof -
  let ?c = "PAGE_TEMPLATE STREAM_WIDTH STREAM_HEIGHT"
  let ?h1 = "send_header ''Content-Length'' (py_str (length ?c))
               (send_header ''Content-Type'' ''text/html'' (send_response lib 200 h))"
  from assms(2) have t: "takes (Suc (Suc 0)) ?h1" by (simp add: numeral_2_eq_2)
  have v: "request_version ?h1 \<noteq> ''HTTP/0.9''" using assms(3) by simp
  let ?h2 = "spend 1 ?h1\<lparr>wfile := wfile ?h1 @ headers_buffer ?h1 @ CRLF, headers_buffer := []\<rparr>"
  have 1: "end_headers ?h1 = Inr ?h2" by (rule end_headers_takes [OF v t])
  have "takes (Suc 0) ?h2" using takes_spend [OF t] by simp
  from wfile_write_takes [OF this, of ?c] have 2:
    "wfile_write ?c ?h2 = Inr (spend 1 ?h2\<lparr>wfile := wfile ?h2 @ ?c\<rparr>)" .
  show ?thesis
    unfolding handle_index_page_def Let_def and_then_def 1 sum.case 2
    using assms(1,3) by simp
qed

lemma send_error_404_takes:
  assumes "headers_buffer h = []" and "takes 2 h"
  shows "\<exists>h'. send_error lib 404 h = Inr h' \<and> pc h' = pc h
           \<and> wfile h' = wfile h
                @ (if request_version h \<noteq> ''HTTP/0.9''
                   then response_head lib 404 @ ''Connection: close'' @ CRLF
                        @ ''Content-Type: text/html;charset=utf-8'' @ CRLF
                        @ ''Content-Length: '' @ py_str (length (error_body lib 404)) @ CRLF
                        @ CRLF
                   else [])
                @ error_body lib 404"
proof -
  let ?b = "error_body lib 404"
  let ?h1 = "send_header ''Content-Length'' (py_str (length ?b))
               (send_header ''Content-Type'' ''text/html;charset=utf-8''
                  (send_header ''Connection'' ''close'' (send_response lib 404 h)))"
  have c: "(200::nat) \<le> 404 \<and> (404::nat) \<noteq> 204 \<and> (404::nat) \<noteq> 205 \<and> (404::nat) \<noteq> 304"
    by simp
  from assms(2) have t: "takes (Suc (Suc 0)) ?h1" by (simp add: numeral_2_eq_2)
  show ?thesis
  proof (cases "request_version h = ''HTTP/0.9''")
    case True
    then have h1: "?h1 = h" by simp
    have "takes (Suc 0) h" using takes_less [of "Suc 0" h] assms(2) by (simp add: numeral_2_eq_2)
    from wfile_write_takes [OF this, of ?b] have 2:
      "wfile_write ?b h = Inr (spend 1 h\<lparr>wfile := wfile h @ ?b\<rparr>)" .
    show ?thesis
      unfolding send_error_def Let_def and_then_def if_P [OF c] h1
      using True 2 by (cases "?b = []") simp_all
  next
    case False
    then have v: "request_version ?h1 \<noteq> ''HTTP/0.9''" by simp
    let ?h2 = "spend 1 ?h1\<lparr>wfile := wfile ?h1 @ headers_buffer ?h1 @ CRLF,
                 headers_buffer := []\<rparr>"
    have 1: "end_headers ?h1 = Inr ?h2" by (rule end_headers_takes [OF v t])
    have "takes (Suc 0) ?h2" using takes_spend [OF t] by simp
    from wfile_write_takes [OF this, of ?b] have 2:
      "wfile_write ?b ?h2 = Inr (spend 1 ?h2\<lparr>wfile := wfile ?h2 @ ?b\<rparr>)" .
    show ?thesis
      unfolding send_error_def Let_def and_then_def 1 sum.case 2 if_P [OF c]
      using assms(1) False by (cases "?b = []") simp_all
  qed
qed

text \<open>
  Claim C6, as stated, fails for an HTTP/0.9 request: \<open>GET /\<close> then writes nothing at
  all, neither a status line nor the \<open>Location\<close> header.
\<close>

theorem old_request_routing_counterexample:
  "do_GET plain_lib (new_handler ''/'' ''HTTP/0.9'' None)
   = Inr \<lparr>path = ''/'', request_version = ''HTTP/0.9'', headers_buffer = [], wfile = [],
          peer = None, pc = Routing\<rparr>"
  by (simp add: eval_defs)

text \<open>
  Claim C6, amended. A GET that is not HTTP/0.9, handled with an empty header buffer on a
  peer that takes two writes: path \<open>/\<close> gives what \<open>send_response(301)\<close> gives and the
  header \<open>Location: /index.html\<close>; path \<open>/index.html\<close> gives what
  \<open>send_response(200)\<close> gives, \<open>Content-Type: text/html\<close>, a \<open>Content-Length\<close> that
  is the numeral of the length of the rendered page, and then that page; path
  \<open>/stream.mjpg\<close> sends the head of the stream and enters the frame loop; every other
  path gives the library's 404 response.
\<close>

theorem do_GET_routing:
  assumes "headers_buffer h = []" and "takes 2 h" and "request_version h \<noteq> ''HTTP/0.9''"
  shows "(path h = ''/'' \<longrightarrow>
            (\<exists>h'. do_GET lib h = Inr h'
               \<and> wfile h' = wfile h @ response_head lib 301
                    @ ''Location: /index.html'' @ CRLF @ CRLF))
       \<and> (path h = ''/index.html'' \<longrightarrow>
            (\<exists>h'. do_GET lib h = Inr h'
               \<and> wfile h' = wfile h @ response_head lib 200
                    @ ''Content-Type: text/html'' @ CRLF
                    @ ''Content-Length: ''
                    @ py_str (length (PAGE_TEMPLATE STREAM_WIDTH STREAM_HEIGHT)) @ CRLF
                    @ CRLF @ PAGE_TEMPLATE STREAM_WIDTH STREAM_HEIGHT
               \<and> py_int (py_str (length (PAGE_TEMPLATE STREAM_WIDTH STREAM_HEIGHT)))
                    = length (PAGE_TEMPLATE STREAM_WIDTH STREAM_HEIGHT)))
       \<and> (path h = ''/stream.mjpg'' \<longrightarrow>
            (\<exists>h'. do_GET lib h = Inr h' \<and> pc h' = Ready
               \<and> wfile h' = wfile h @ stream_head lib))
       \<and> (path h \<noteq> ''/'' \<and> path h \<noteq> ''/index.html'' \<and> path h \<noteq> ''/stream.mjpg'' \<longrightarrow>
            (\<exists>h'. do_GET lib h = Inr h'
               \<and> wfile h' = wfile h @ response_head lib 404 @ ''Connection: close'' @ CRLF
                    @ ''Content-Type: text/html;charset=utf-8'' @ CRLF
                    @ ''Content-Length: '' @ py_str (length (error_body lib 404)) @ CRLF
                    @ CRLF @ error_body lib 404))"
proof -
  from assms(2) have t1: "takes 1 h"
    using takes_less [of 1 h] by (simp add: numeral_2_eq_2)
  show ?thesis
  proof (intro conjI impI)
    assume "path h = ''/''"
    then show "\<exists>h'. do_GET lib h = Inr h'
               \<and> wfile h' = wfile h @ response_head lib 301
                    @ ''Location: /index.html'' @ CRLF @ CRLF"
      using redirect_to_index_takes [OF assms(1) t1 assms(3), of lib] by (simp add: do_GET_def)
  next
    assume "path h = ''/index.html''"
    then show "\<exists>h'. do_GET lib h = Inr h'
               \<and> wfile h' = wfile h @ response_head lib 200
                    @ ''Content-Type: text/html'' @ CRLF
                    @ ''Content-Length: ''
                    @ py_str (length (PAGE_TEMPLATE STREAM_WIDTH STREAM_HEIGHT)) @ CRLF
                    @ CRLF @ PAGE_TEMPLATE STREAM_WIDTH STREAM_HEIGHT
               \<and> py_int (py_str (length (PAGE_TEMPLATE STREAM_WIDTH STREAM_HEIGHT)))
                    = length (PAGE_TEMPLATE STREAM_WIDTH STREAM_HEIGHT)"
      using handle_index_page_takes [OF assms, of lib]
      by (simp only: do_GET_def py_int_py_str) simp
  next
    assume "path h = ''/stream.mjpg''"
    then show "\<exists>h'. do_GET lib h = Inr h' \<and> pc h' = Ready
               \<and> wfile h' = wfile h @ stream_head lib"
      using stream_head_sent [OF assms(1) t1 assms(3), of lib] by (auto simp: do_GET_def)
  next
    assume "path h \<noteq> ''/'' \<and> path h \<noteq> ''/index.html'' \<and> path h \<noteq> ''/stream.mjpg''"
    then show "\<exists>h'. do_GET lib h = Inr h'
               \<and> wfile h' = wfile h @ response_head lib 404 @ ''Connection: close'' @ CRLF
                    @ ''Content-Type: text/html;charset=utf-8'' @ CRLF
                    @ ''Content-Length: '' @ py_str (length (error_body lib 404)) @ CRLF
                    @ CRLF @ error_body lib 404"
      using send_error_404_takes [OF assms(1,2), of lib] assms(3) by (auto simp: do_GET_def)
  qed
qed

theorem do_GET_routing_witness:
  "headers_buffer (new_handler ''/'' ''HTTP/1.1'' None) = []
   \<and> takes 2 (new_handler ''/'' ''HTTP/1.1'' None)
   \<and> request_version (new_handler ''/'' ''HTTP/1.1'' None) \<noteq> ''HTTP/0.9''
   \<and> path (new_handler ''/'' ''HTTP/1.1'' None) = ''/''
   \<and> (\<exists>h'. do_GET plain_lib (new_handler ''/'' ''HTTP/1.1'' None) = Inr h'
         \<and> wfile h' = response_head plain_lib 301 @ ''Location: /index.html'' @ CRLF @ CRLF)
   \<and> (\<exists>h'. do_GET plain_lib (new_handler ''/index.html'' ''HTTP/1.1'' None) = Inr h'
         \<and> wfile h' = response_head plain_lib 200 @ ''Content-Type: text/html'' @ CRLF
              @ ''Content-Length: 173'' @ CRLF @ CRLF @ PAGE_TEMPLATE 640 480)
   \<and> (\<exists>h'. do_GET plain_lib (new_handler ''/stream.mjpg'' ''HTTP/1.1'' None) = Inr h'
         \<and> pc h' = Ready \<and> wfile h' = stream_head plain_lib)
   \<and> (\<exists>h'. do_GET plain_lib (new_handler ''/unknown'' ''HTTP/1.1'' None) = Inr h'
         \<and> wfile h' = response_head plain_lib 404 @ ''Connection: close'' @ CRLF
              @ ''Content-Type: text/html;charset=utf-8'' @ CRLF
              @ ''Content-Length: '' @ py_str (length (error_body plain_lib 404)) @ CRLF
              @ CRLF @ error_body plain_lib 404)"
proof -
  have b: "headers_buffer (new_handler p ''HTTP/1.1'' None) = []" for p
    by (simp add: new_handler_def)
  have t: "takes 2 (new_handler p ''HTTP/1.1'' None)" for p
    by (simp add: takes_def new_handler_def)
  have v: "request_version (new_handler p ''HTTP/1.1'' None) \<noteq> ''HTTP/0.9''" for p
    by (simp add: new_handler_def)
  have p: "path (new_handler p ''HTTP/1.1'' None) = p"
    and w: "wfile (new_handler p ''HTTP/1.1'' None) = []" for p
    by (simp_all add: new_handler_def)
  have n: "length (PAGE_TEMPLATE 640 480) = 173"
    by code_simp
  have s: "py_str 173 = ''173''"
    by code_simp
  have c: "STREAM_WIDTH = 640" "STREAM_HEIGHT = 480"
    by (simp_all add: STREAM_WIDTH_def STREAM_HEIGHT_def)
  from do_GET_routing [OF b t v, of "''/''" plain_lib]
  have 1: "\<exists>h'. do_GET plain_lib (new_handler ''/'' ''HTTP/1.1'' None) = Inr h'
         \<and> wfile h' = response_head plain_lib 301 @ ''Location: /index.html'' @ CRLF @ CRLF"
    by (simp add: p w)
  from do_GET_routing [OF b t v, of "''/index.html''" plain_lib]
  have 2: "\<exists>h'. do_GET plain_lib (new_handler ''/index.html'' ''HTTP/1.1'' None) = Inr h'
         \<and> wfile h' = response_head plain_lib 200 @ ''Content-Type: text/html'' @ CRLF
              @ ''Content-Length: 173'' @ CRLF @ CRLF @ PAGE_TEMPLATE 640 480"
    by (auto simp: p w c n s)
  from do_GET_routing [OF b t v, of "''/stream.mjpg''" plain_lib]
  have 3: "\<exists>h'. do_GET plain_lib (new_handler ''/stream.mjpg'' ''HTTP/1.1'' None) = Inr h'
         \<and> pc h' = Ready \<and> wfile h' = stream_head plain_lib"
    by (simp add: p w)
  from do_GET_routing [OF b t v, of "''/unknown''" plain_lib]
  have 4: "\<exists>h'. do_GET plain_lib (new_handler ''/unknown'' ''HTTP/1.1'' None) = Inr h'
         \<and> wfile h' = response_head plain_lib 404 @ ''Connection: close'' @ CRLF
              @ ''Content-Type: text/html;charset=utf-8'' @ CRLF
              @ ''Content-Length: '' @ py_str (length (error_body plain_lib 404)) @ CRLF
              @ CRLF @ error_body plain_lib 404"
    by (simp add: p w)
  from b t v p 1 2 3 4 show ?thesis by blast
qed

text \<open>
  Claim C9, as stated, fails for an HTTP/0.9 request: the path \<open>/stream.mjpg?x=1\<close> is
  answered by the error page alone, with no status line that says 404.
\<close>

theorem old_request_unknown_counterexample:
  "do_GET plain_lib (new_handler ''/stream.mjpg?x=1'' ''HTTP/0.9'' None)
   = Inr \<lparr>path = ''/stream.mjpg?x=1'', request_version = ''HTTP/0.9'', headers_buffer = [],
          wfile = error_body plain_lib 404, peer = None, pc = Routing\<rparr>"
  by (simp add: eval_defs plain_lib_def)

text \<open>
  Claim C9, amended. \<open>do_GET\<close> compares the whole path, a query string or a change of
  case included: for a path that differs from \<open>/\<close>, \<open>/index.html\<close> and
  \<open>/stream.mjpg\<close> in any character no stream is started, and what is written is the
  library's answer to \<open>send_error(404)\<close>: for a request that is not HTTP/0.9 the status
  line for 404 with the library's headers, \<open>Connection: close\<close>, the type and the length
  of the error page, a blank line and the error page; for an HTTP/0.9 request the error
  page alone.
\<close>

theorem do_GET_exact_path:
  assumes "path h \<noteq> ''/''" and "path h \<noteq> ''/index.html''" and "path h \<noteq> ''/stream.mjpg''"
    and "headers_buffer h = []" and "takes 2 h"
  shows "\<exists>h'. do_GET lib h = Inr h' \<and> pc h' = pc h
           \<and> wfile h' = wfile h
                @ (if request_version h \<noteq> ''HTTP/0.9''
                   then status_line lib 404
                        @ ''Server: '' @ version_string lib @ CRLF
                        @ ''Date: '' @ date_time_string lib @ CRLF
                        @ ''Connection: close'' @ CRLF
                        @ ''Content-Type: text/html;charset=utf-8'' @ CRLF
                        @ ''Content-Length: '' @ py_str (length (error_body lib 404)) @ CRLF
                        @ CRLF
                   else [])
                @ error_body lib 404"
  using send_error_404_takes [OF assms(4,5), of lib] assms(1,2,3)
  by (cases "request_version h = ''HTTP/0.9''") (auto simp: do_GET_def response_head_def)

theorem do_GET_exact_path_witness:
  "''/stream.mjpg?x=1'' \<noteq> ''/'' \<and> ''/stream.mjpg?x=1'' \<noteq> ''/index.html''
   \<and> ''/stream.mjpg?x=1'' \<noteq> ''/stream.mjpg''
   \<and> headers_buffer (new_handler ''/stream.mjpg?x=1'' ''HTTP/1.1'' None) = []
   \<and> takes 2 (new_handler ''/stream.mjpg?x=1'' ''HTTP/1.1'' None)
   \<and> (\<exists>h'. do_GET plain_lib (new_handler ''/stream.mjpg?x=1'' ''HTTP/1.1'' None) = Inr h'
         \<and> pc h' = Routing
         \<and> wfile h' = response_head plain_lib 404 @ ''Connection: close'' @ CRLF
              @ ''Content-Type: text/html;charset=utf-8'' @ CRLF
              @ ''Content-Length: '' @ py_str (length (error_body plain_lib 404)) @ CRLF
              @ CRLF @ error_body plain_lib 404)
   \<and> (\<exists>h'. do_GET plain_lib (new_handler ''/index.html/'' ''HTTP/1.1'' None) = Inr h'
         \<and> pc h' = Routing
         \<and> wfile h' = response_head plain_lib 404 @ ''Connection: close'' @ CRLF
              @ ''Content-Type: text/html;charset=utf-8'' @ CRLF
              @ ''Content-Length: '' @ py_str (length (error_body plain_lib 404)) @ CRLF
              @ CRLF @ error_body plain_lib 404)
   \<and> (\<exists>h'. do_GET plain_lib (new_handler ''/STREAM.MJPG'' ''HTTP/1.1'' None) = Inr h'
         \<and> pc h' = Routing
         \<and> wfile h' = response_head plain_lib 404 @ ''Connection: close'' @ CRLF
              @ ''Content-Type: text/html;charset=utf-8'' @ CRLF
              @ ''Content-Length: '' @ py_str (length (error_body plain_lib 404)) @ CRLF
              @ CRLF @ error_body plain_lib 404)
   \<and> (\<exists>h'. do_GET plain_lib (new_handler ''/STREAM.MJPG'' ''HTTP/0.9'' None) = Inr h'
         \<and> pc h' = Routing \<and> wfile h' = error_body plain_lib 404)"
proof -
  have b: "headers_buffer (new_handler p v None) = []" for p v
    by (simp add: new_handler_def)
  have t: "takes 2 (new_handler p v None)" for p v
    by (simp add: takes_def new_handler_def)
  have f: "path (new_handler p v None) = p" "wfile (new_handler p v None) = []"
    "pc (new_handler p v None) = Routing" "request_version (new_handler p v None) = v" for p v
    by (simp_all add: new_handler_def)
  have 1: "\<exists>h'. do_GET plain_lib (new_handler ''/stream.mjpg?x=1'' ''HTTP/1.1'' None) = Inr h'
         \<and> pc h' = Routing
         \<and> wfile h' = response_head plain_lib 404 @ ''Connection: close'' @ CRLF
              @ ''Content-Type: text/html;charset=utf-8'' @ CRLF
              @ ''Content-Length: '' @ py_str (length (error_body plain_lib 404)) @ CRLF
              @ CRLF @ error_body plain_lib 404"
    using do_GET_exact_path [OF _ _ _ b t, of "''/stream.mjpg?x=1''" "''HTTP/1.1''" plain_lib]
    by (simp add: f response_head_def)
  have 2: "\<exists>h'. do_GET plain_lib (new_handler ''/index.html/'' ''HTTP/1.1'' None) = Inr h'
         \<and> pc h' = Routing
         \<and> wfile h' = response_head plain_lib 404 @ ''Connection: close'' @ CRLF
              @ ''Content-Type: text/html;charset=utf-8'' @ CRLF
              @ ''Content-Length: '' @ py_str (length (error_body plain_lib 404)) @ CRLF
              @ CRLF @ error_body plain_lib 404"
    using do_GET_exact_path [OF _ _ _ b t, of "''/index.html/''" "''HTTP/1.1''" plain_lib]
    by (simp add: f response_head_def)
  have 3: "\<exists>h'. do_GET plain_lib (new_handler ''/STREAM.MJPG'' ''HTTP/1.1'' None) = Inr h'
         \<and> pc h' = Routing
         \<and> wfile h' = response_head plain_lib 404 @ ''Connection: close'' @ CRLF
              @ ''Content-Type: text/html;charset=utf-8'' @ CRLF
              @ ''Content-Length: '' @ py_str (length (error_body plain_lib 404)) @ CRLF
              @ CRLF @ error_body plain_lib 404"
    using do_GET_exact_path [OF _ _ _ b t, of "''/STREAM.MJPG''" "''HTTP/1.1''" plain_lib]
    by (simp add: f response_head_def)
  have 4: "\<exists>h'. do_GET plain_lib (new_handler ''/STREAM.MJPG'' ''HTTP/0.9'' None) = Inr h'
         \<and> pc h' = Routing \<and> wfile h' = error_body plain_lib 404"
    using do_GET_exact_path [OF _ _ _ b t, of "''/STREAM.MJPG''" "''HTTP/0.9''" plain_lib]
    by (simp add: f)
  from 1 2 3 4 b t show ?thesis by simp
qed

text \<open>
  Claim C8. When the peer of a connection goes away before the writes of a part are done
  (four, or three for an HTTP/0.9 request, which has no headers to flush), the write that
  fails raises inside the \<open>try\<close>: the step ends normally, the
  connection is closed and takes no further step, \<open>logging\<close> receives one warning that
  carries the text of the exception, and neither the shared \<open>output\<close> nor any other
  connection's handler changes.
\<close>

theorem write_failure_closes:
  assumes "handlers s c = Some h" and "pc h = Woken" and "frame (the_output s) = Some f"
    and "peer h = Some (k, e)" and "k < part_writes h"
  shows "\<exists>s' h'. step lib (Run c) s = Some s' \<and> handlers s' c = Some h' \<and> pc h' = Closed
           \<and> logged s' = logged s @ [(WARNING, ''Streaming interrupted: '' @ str_exn e)]
           \<and> the_output s' = the_output s
           \<and> (\<forall>c'. c' = c \<or> handlers s' c' = handlers s c')
           \<and> step lib (Run c) s' = None"
proof -
  from send_frame_fails [OF assms(4,5), of f] obtain h' where
    "send_frame (Some f) h = Inl (e, h')" by blast
  with assms(3) have "send_frame (frame (the_output s)) h = Inl (e, h')" by simp
  from resume_raised [OF assms(1,2) this, of lib] show ?thesis by simp
qed

theorem write_failure_closes_witness:
  "handlers (woken_state (Some ''JPEG'') (Some (2, OSError ''Broken pipe''))) 0
     = Some (woken_handler (Some (2, OSError ''Broken pipe'')))
   \<and> pc (woken_handler (Some (2, OSError ''Broken pipe''))) = Woken
   \<and> frame (the_output (woken_state (Some ''JPEG'') (Some (2, OSError ''Broken pipe''))))
       = Some ''JPEG''
   \<and> peer (woken_handler (Some (2, OSError ''Broken pipe''))) = Some (2, OSError ''Broken pipe'')
   \<and> 2 < part_writes (woken_handler (Some (2, OSError ''Broken pipe'')))
   \<and> (\<exists>s' h'.
         step plain_lib (Run 0) (woken_state (Some ''JPEG'') (Some (2, OSError ''Broken pipe'')))
           = Some s'
         \<and> handlers s' 0 = Some h' \<and> pc h' = Closed
         \<and> logged s' = [(WARNING, ''Streaming interrupted: Broken pipe'')]
         \<and> the_output s' = \<lparr>frame = Some ''JPEG'', condition = []\<rparr>
         \<and> step plain_lib (Run 0) s' = None)"
proof -
  let ?pr = "Some (2::nat, OSError ''Broken pipe'')"
  have 1: "handlers (woken_state (Some ''JPEG'') ?pr) 0 = Some (woken_handler ?pr)"
    by (simp add: woken_state_def)
  have 2: "pc (woken_handler ?pr) = Woken" by (simp add: woken_handler_def)
  have 3: "frame (the_output (woken_state (Some ''JPEG'') ?pr)) = Some ''JPEG''"
    by (simp add: woken_state_def)
  have 4: "peer (woken_handler ?pr) = ?pr" by (simp add: woken_handler_def)
  have 5: "2 < part_writes (woken_handler ?pr)"
    by (simp add: part_writes_def woken_handler_def)
  have 6: "logged (woken_state (Some ''JPEG'') ?pr)
             @ [(WARNING, ''Streaming interrupted: '' @ str_exn (OSError ''Broken pipe''))]
           = [(WARNING, ''Streaming interrupted: Broken pipe'')]"
    by (simp add: woken_state_def)
  have 7: "the_output (woken_state (Some ''JPEG'') ?pr) = \<lparr>frame = Some ''JPEG'', condition = []\<rparr>"
    by (simp add: woken_state_def)
  from write_failure_closes [OF 1 2 3 4 5, of plain_lib] have
    "\<exists>s' h'. step plain_lib (Run 0) (woken_state (Some ''JPEG'') ?pr) = Some s'
         \<and> handlers s' 0 = Some h' \<and> pc h' = Closed
         \<and> logged s' = [(WARNING, ''Streaming interrupted: Broken pipe'')]
         \<and> the_output s' = \<lparr>frame = Some ''JPEG'', condition = []\<rparr>
         \<and> step plain_lib (Run 0) s' = None"
    unfolding 6 7 by blast
  with 1 2 3 4 5 show ?thesis by blast
qed

text \<open>
  Claim C10, as stated, fails: with no frame published the iteration does write to the
  connection before \<open>len(frame)\<close> raises. The boundary line of a part is on the wire, and
  its \<open>Content-Type\<close> header is left in the buffer.
\<close>

theorem no_frame_counterexample:
  "stream_iteration None \<lparr>path = ''/stream.mjpg'', request_version = ''HTTP/1.1'',
      headers_buffer = [], wfile = [], peer = None, pc = Woken\<rparr>
   = (\<lparr>path = ''/stream.mjpg'', request_version = ''HTTP/1.1'',
       headers_buffer = ''Content-Type: image/jpeg'' @ CRLF,
       wfile = ''--FRAME'' @ CRLF, peer = None, pc = Closed\<rparr>,
      [(WARNING, ''Streaming interrupted: '' @ no_len)])"
  by (simp add: stream_iteration_def send_frame_def and_then_def wfile_write_def
      send_header_def)

text \<open>
  Claim C10, amended. The program starts with no frame. When a connection's \<open>wait()\<close>
  returns while there is none, the iteration writes the boundary line \<open>--FRAME\<close> and
  nothing more, \<open>len(None)\<close> raises \<open>TypeError\<close> inside the \<open>try\<close>, and the step ends
  normally: the connection is closed, one warning with the text of the exception is
  logged, and nothing else changes.
\<close>

theorem no_frame_closes:
  assumes "handlers s c = Some h" and "pc h = Woken" and "frame (the_output s) = None"
    and "takes 1 h"
  shows "frame (the_output main) = None
         \<and> (\<exists>s' h'. step lib (Run c) s = Some s' \<and> handlers s' c = Some h' \<and> pc h' = Closed
           \<and> wfile h' = wfile h @ ''--FRAME'' @ CRLF
           \<and> logged s' = logged s @ [(WARNING, ''Streaming interrupted: '' @ no_len)]
           \<and> the_output s' = the_output s
           \<and> (\<forall>c'. c' = c \<or> handlers s' c' = handlers s c')
           \<and> step lib (Run c) s' = None)"
proof -
  from assms(4) have "takes (Suc 0) h" by simp
  from wfile_write_takes [OF this, of "''--FRAME'' @ CRLF"]
  have "send_frame None h = Inl (TypeError no_len,
          send_header ''Content-Type'' ''image/jpeg''
            (spend 1 h\<lparr>wfile := wfile h @ ''--FRAME'' @ CRLF\<rparr>))"
    unfolding send_frame_def and_then_def Let_def by simp
  with assms(3) have "send_frame (frame (the_output s)) h = Inl (TypeError no_len,
          send_header ''Content-Type'' ''image/jpeg''
            (spend 1 h\<lparr>wfile := wfile h @ ''--FRAME'' @ CRLF\<rparr>))" by simp
  from resume_raised [OF assms(1,2) this, of lib] show ?thesis
    by (simp add: spend_def main_def)
qed

theorem no_frame_closes_witness:
  "handlers (woken_state None None) 0 = Some (woken_handler None)
   \<and> pc (woken_handler None) = Woken
   \<and> frame (the_output (woken_state None None)) = None \<and> takes 1 (woken_handler None)
   \<and> (\<exists>s' h'. step plain_lib (Run 0) (woken_state None None) = Some s'
         \<and> handlers s' 0 = Some h' \<and> pc h' = Closed
         \<and> wfile h' = stream_head plain_lib @ ''--FRAME'' @ CRLF
         \<and> logged s' = [(WARNING, ''Streaming interrupted: '' @ no_len)]
         \<and> step plain_lib (Run 0) s' = None)"
proof -
  have 1: "handlers (woken_state None None) 0 = Some (woken_handler None)"
    by (simp add: woken_state_def)
  have 2: "pc (woken_handler None) = Woken" by (simp add: woken_handler_def)
  have 3: "frame (the_output (woken_state None None)) = None" by (simp add: woken_state_def)
  have 4: "takes 1 (woken_handler None)" by (simp add: takes_def woken_handler_def)
  have 5: "wfile (woken_handler None) = stream_head plain_lib" by (simp add: woken_handler_def)
  have 6: "logged (woken_state None None) @ [(WARNING, ''Streaming interrupted: '' @ no_len)]
           = [(WARNING, ''Streaming interrupted: '' @ no_len)]"
    by (simp add: woken_state_def)
  from no_frame_closes [OF 1 2 3 4, of plain_lib] have
    "\<exists>s' h'. step plain_lib (Run 0) (woken_state None None) = Some s'
         \<and> handlers s' 0 = Some h' \<and> pc h' = Closed
         \<and> wfile h' = stream_head plain_lib @ ''--FRAME'' @ CRLF
         \<and> logged s' = [(WARNING, ''Streaming interrupted: '' @ no_len)]
         \<and> step plain_lib (Run 0) s' = None"
    unfolding 5 6 by blast
  with 1 2 3 4 show ?thesis by blast
qed

lemma last_opt_snoc [simp]: "last_opt (xs @ [x]) = Some x"
  by (simp add: last_opt_def)

lemma step_frame:
  assumes "step lib e s = Some s'" and "frame (the_output s) = last_opt pub"
  shows "frame (the_output s') = last_opt (pub @ captured e)"
proof (cases e)
  case (Request c p v pr)
  with assms show ?thesis by (auto split: option.splits)
next
  case (Capture buf)
  with assms show ?thesis by (auto simp: output_write_def)
next
  case (Run c)
  with assms show ?thesis
    by (auto simp: wait_def resume_def split: option.splits phase.splits prod.splits)
next
  case (Spurious c)
  with assms show ?thesis by (auto split: option.splits if_splits)
qed

lemma run_frame:
  "run lib evs s = Some s' \<Longrightarrow> frame (the_output s) = last_opt pub
     \<Longrightarrow> frame (the_output s') = last_opt (pub @ published evs)"
proof (induction evs arbitrary: s pub)
  case Nil
  then show ?case by (simp add: published_def)
next
  case (Cons e evs)
  from Cons.prems(1) obtain s1 where 1: "step lib e s = Some s1" and 2: "run lib evs s1 = Some s'"
    by (auto split: option.splits)
  from Cons.IH [OF 2 step_frame [OF 1 Cons.prems(2)]] show ?case
    by (simp add: published_def)
qed

lemma main_frame: "frame (the_output main) = last_opt []"
  by (simp add: main_def last_opt_def)

lemma output_write_phase:
  assumes "loop_inv s"
  shows "phase_of (output_write buf s) c
           = (if phase_of s c = Some Parked then Some Woken else phase_of s c)"
proof (cases "handlers s c")
  case None
  then show ?thesis
    by (simp add: phase_of_def output_write_def notify_all_apply)
next
  case (Some h)
  with assms have "c \<in> set (condition (the_output s)) \<longleftrightarrow> pc h = Parked"
    by (simp add: loop_inv_def)
  with Some show ?thesis
    by (simp add: phase_of_def output_write_def notify_all_apply)
qed

text \<open>
  Claim C3, as stated, fails: the program keeps no sequence counter. Publishing the same
  buffer a second time leaves the whole state as the first publish left it, so nothing in
  the state counts publishes.
\<close>

theorem no_counter_counterexample:
  "output_write ''JPEG'' (output_write ''JPEG'' main) = output_write ''JPEG'' main"
  by (simp add: output_write_def main_def)

text \<open>
  Claim C3, amended. In every reachable state the stored frame is the frame of the latest
  publish, and \<open>None\<close> before the first; a publish always completes, replaces the stored
  frame by the new one, empties the list of waiters and releases exactly the parked
  threads, leaving the phase of every other thread as it was.
\<close>

theorem publish_replaces_and_wakes:
  assumes "run lib evs main = Some s"
  shows "frame (the_output s) = last_opt (published evs)
       \<and> (\<exists>s'. step lib (Capture buf) s = Some s'
             \<and> the_output s' = \<lparr>frame = Some buf, condition = []\<rparr>
             \<and> (\<forall>c. phase_of s' c
                      = (if phase_of s c = Some Parked then Some Woken else phase_of s c)))"
proof -
  from loop_inv_run [OF loop_inv_main assms] have inv: "loop_inv s" .
  from run_frame [OF assms main_frame] have "frame (the_output s) = last_opt (published evs)"
    by simp
  moreover have "the_output (output_write buf s) = \<lparr>frame = Some buf, condition = []\<rparr>"
    by (simp add: output_write_def)
  ultimately show ?thesis
    using output_write_phase [OF inv] by simp
qed

lemma run_parked:
  "run plain_lib [Request 0 ''/stream.mjpg'' ''HTTP/1.1'' None, Capture ''old'', Run 0] main
     = Some \<lparr>the_output = \<lparr>frame = Some ''old'', condition = [0]\<rparr>,
             handlers = [0 \<mapsto> (woken_handler None)\<lparr>pc := Parked\<rparr>], logged = []\<rparr>"
  by (simp add: eval_defs)

theorem publish_replaces_and_wakes_witness:
  "run plain_lib [Request 0 ''/stream.mjpg'' ''HTTP/1.1'' None, Capture ''old'', Run 0] main
     = Some \<lparr>the_output = \<lparr>frame = Some ''old'', condition = [0]\<rparr>,
             handlers = [0 \<mapsto> (woken_handler None)\<lparr>pc := Parked\<rparr>], logged = []\<rparr>
   \<and> (\<exists>s'. step plain_lib (Capture ''new'')
               \<lparr>the_output = \<lparr>frame = Some ''old'', condition = [0]\<rparr>,
                handlers = [0 \<mapsto> (woken_handler None)\<lparr>pc := Parked\<rparr>], logged = []\<rparr>
             = Some s'
          \<and> the_output s' = \<lparr>frame = Some ''new'', condition = []\<rparr>
          \<and> phase_of s' 0 = Some Woken)"
proof -
  let ?s = "\<lparr>the_output = \<lparr>frame = Some ''old'', condition = [0]\<rparr>,
             handlers = [0 \<mapsto> (woken_handler None)\<lparr>pc := Parked\<rparr>], logged = []\<rparr>"
  have p: "phase_of ?s 0 = Some Parked" by (simp add: phase_of_def)
  from publish_replaces_and_wakes [OF run_parked, of "''new''"] obtain s' where
    "step plain_lib (Capture ''new'') ?s = Some s'"
    "the_output s' = \<lparr>frame = Some ''new'', condition = []\<rparr>"
    "\<forall>c. phase_of s' c = (if phase_of ?s c = Some Parked then Some Woken else phase_of ?s c)"
    by blast
  with p run_parked show ?thesis by auto
qed


lemma serve_phase:
  "pc h = Routing \<Longrightarrow> headers_buffer h = [] \<Longrightarrow> pc (serve lib h) \<noteq> Woken"
  using serve_pc [of h lib] by simp

lemma step_woken:
  assumes "step lib e s = Some s'" and "e \<noteq> Spurious c" and "phase_of s' c = Some Woken"
  shows "(phase_of s c = Some Woken \<and> e \<noteq> Run c) \<or> captured e \<noteq> []"
proof (cases e)
  case (Request c' p v pr)
  with assms(1) have none: "handlers s c' = None" and
    s': "s' = s\<lparr>handlers := (handlers s)(c' \<mapsto> serve lib (new_handler p v pr))\<rparr>"
    by (auto split: option.splits)
  have "pc (serve lib (new_handler p v pr)) \<noteq> Woken"
    by (rule serve_phase) (simp_all add: new_handler_def)
  with assms(3) Request show ?thesis
    unfolding s' by (auto simp: phase_of_def split: if_splits)
next
  case (Capture buf)
  then show ?thesis by simp
next
  case (Run c')
  from assms(1) Run obtain h where h: "handlers s c' = Some h"
    by (auto split: option.splits)
  show ?thesis
  proof (cases "pc h = Ready")
    case True
    with assms(1) Run h have s': "s' = wait c' h s" by simp
    from assms(3) Run show ?thesis
      unfolding s' wait_def by (auto simp: phase_of_def split: if_splits)
  next
    case False
    with assms(1) Run h have s': "s' = resume c' h s"
      by (auto split: phase.splits)
    obtain h' lg where it: "stream_iteration (frame (the_output s)) h = (h', lg)"
      by (cases "stream_iteration (frame (the_output s)) h")
    from stream_iteration_pc [OF it] have "pc h' \<noteq> Woken" by auto
    with assms(3) Run show ?thesis
      unfolding s' resume_def it by (auto simp: phase_of_def split: if_splits)
  qed
next
  case (Spurious c')
  with assms(1) obtain h where
    s': "s' = s\<lparr>the_output := (the_output s)\<lparr>condition := removeAll c' (condition (the_output s))\<rparr>,
                 handlers := (handlers s)(c' \<mapsto> h\<lparr>pc := Woken\<rparr>)\<rparr>"
    by (auto split: option.splits if_splits)
  from assms(2,3) Spurious show ?thesis
    unfolding s' by (auto simp: phase_of_def split: if_splits)
qed

lemma reads_increasing:
  assumes "Spurious c \<notin> set evs"
    and "phase_of s c = Some Woken \<Longrightarrow> lo < length pub" and "lo \<le> length pub"
  shows "sorted_wrt (<) (map (length \<circ> fst) (reads lib c pub evs s))
       \<and> (\<forall>r \<in> set (reads lib c pub evs s). lo < length (fst r))"
  using assms
proof (induction evs arbitrary: s pub lo)
  case Nil
  show ?case by simp
next
  case (Cons e evs)
  show ?case
  proof (cases "step lib e s")
    case None
    then show ?thesis by simp
  next
    case (Some s')
    from Cons.prems(1) have ne: "e \<noteq> Spurious c" and rest: "Spurious c \<notin> set evs" by auto
    let ?pub = "pub @ captured e"
    show ?thesis
    proof (cases "e = Run c \<and> phase_of s c = Some Woken")
      case True
      then have lo: "lo < length pub" using Cons.prems(2) by simp
      from True have cap: "captured e = []" by auto
      have a: "phase_of s' c = Some Woken \<Longrightarrow> length pub < length ?pub"
        using step_woken [OF Some ne] True by auto
      have b: "length pub \<le> length ?pub" by simp
      note ih = Cons.IH [where s = s' and pub = ?pub and lo = "length pub", OF rest a b]
      from ih lo True Some show ?thesis by (auto simp: cap)
    next
      case False
      have a: "phase_of s' c = Some Woken \<Longrightarrow> lo < length ?pub"
      proof -
        assume "phase_of s' c = Some Woken"
        from step_woken [OF Some ne this] show "lo < length ?pub"
        proof
          assume "phase_of s c = Some Woken \<and> e \<noteq> Run c"
          with Cons.prems(2) show ?thesis by simp
        next
          assume "captured e \<noteq> []"
          then have "length pub < length ?pub" by simp
          with Cons.prems(3) show ?thesis by linarith
        qed
      qed
      have b: "lo \<le> length ?pub" using Cons.prems(3) by simp
      note ih = Cons.IH [where s = s' and pub = ?pub and lo = lo, OF rest a b]
      from ih False Some show ?thesis by auto
    qed
  qed
qed

lemma reads_latest_gen:
  "frame (the_output s) = last_opt pub
     \<Longrightarrow> map snd (reads lib c pub evs s) = map (last_opt \<circ> fst) (reads lib c pub evs s)"
proof (induction evs arbitrary: s pub)
  case Nil
  show ?case by simp
next
  case (Cons e evs)
  show ?case
  proof (cases "step lib e s")
    case None
    then show ?thesis by simp
  next
    case (Some s')
    from Cons.IH [OF step_frame [OF Some Cons.prems]] Some Cons.prems show ?thesis by simp
  qed
qed

text \<open>
  Claim C2, as stated, fails: the loop calls \<open>wait()\<close> once and reads the frame without
  checking anything. If a \<open>wait()\<close> returned without a notification, the connection would
  read the frame of publish number 1 a second time.
\<close>

theorem spurious_wakeup_counterexample:
  "reads plain_lib 0 []
     [Request 0 ''/stream.mjpg'' ''HTTP/1.1'' None, Run 0, Capture ''JPEG'', Run 0, Run 0, Spurious 0, Run 0]
     main
   = [([''JPEG''], Some ''JPEG''), ([''JPEG''], Some ''JPEG'')]"
  by (simp add: eval_defs)

text \<open>
  Claim C2, amended. In a run in which no \<open>wait()\<close> of connection \<open>c\<close> returns without
  a notification, every read of \<open>c\<close> follows at least one publish and returns the frame
  of the latest publish before it, and the numbers of the publishes whose frames \<open>c\<close>
  reads are strictly increasing: no publish is read twice and none older than one already
  read.
\<close>

theorem reads_strictly_increasing:
  assumes "Spurious c \<notin> set evs"
  shows "sorted_wrt (<) (map (length \<circ> fst) (reads lib c [] evs main))
       \<and> map snd (reads lib c [] evs main)
           = map (\<lambda>r. Some (last (fst r))) (reads lib c [] evs main)
       \<and> [] \<notin> set (map fst (reads lib c [] evs main))"
proof -
  have "phase_of main c = Some Woken \<Longrightarrow> 0 < length ([] :: bytes list)"
    by (simp add: phase_of_def main_def)
  from reads_increasing [OF assms this]
  have inc: "sorted_wrt (<) (map (length \<circ> fst) (reads lib c [] evs main))"
    and pos: "\<forall>r \<in> set (reads lib c [] evs main). 0 < length (fst r)"
    by simp_all
  from pos have ne: "[] \<notin> set (map fst (reads lib c [] evs main))" by auto
  have "map snd (reads lib c [] evs main)
          = map (last_opt \<circ> fst) (reads lib c [] evs main)"
    by (rule reads_latest_gen [OF main_frame])
  also have "\<dots> = map (\<lambda>r. Some (last (fst r))) (reads lib c [] evs main)"
    using pos by (auto simp: last_opt_def)
  finally show ?thesis using inc ne by simp
qed

theorem reads_strictly_increasing_witness:
  "Spurious 0 \<notin> set [Request 0 ''/stream.mjpg'' ''HTTP/1.1'' None, Run 0, Capture ''a'',
                     Run 0, Capture ''b'', Run 0, Capture ''c'', Run 0]
   \<and> reads plain_lib 0 []
        [Request 0 ''/stream.mjpg'' ''HTTP/1.1'' None, Run 0, Capture ''a'', Run 0,
         Capture ''b'', Run 0, Capture ''c'', Run 0] main
       = [([''a''], Some ''a''), ([''a'', ''b'', ''c''], Some ''c'')]
   \<and> sorted_wrt (<) (map (length \<circ> fst) (reads plain_lib 0 []
        [Request 0 ''/stream.mjpg'' ''HTTP/1.1'' None, Run 0, Capture ''a'', Run 0,
         Capture ''b'', Run 0, Capture ''c'', Run 0] main))
   \<and> map snd (reads plain_lib 0 []
        [Request 0 ''/stream.mjpg'' ''HTTP/1.1'' None, Run 0, Capture ''a'', Run 0,
         Capture ''b'', Run 0, Capture ''c'', Run 0] main)
       = map (\<lambda>r. Some (last (fst r))) (reads plain_lib 0 []
        [Request 0 ''/stream.mjpg'' ''HTTP/1.1'' None, Run 0, Capture ''a'', Run 0,
         Capture ''b'', Run 0, Capture ''c'', Run 0] main)"
proof -
  have 1: "Spurious 0 \<notin> set [Request 0 ''/stream.mjpg'' ''HTTP/1.1'' None, Run 0,
                     Capture ''a'', Run 0, Capture ''b'', Run 0, Capture ''c'', Run 0]"
    by simp
  have 2: "reads plain_lib 0 []
        [Request 0 ''/stream.mjpg'' ''HTTP/1.1'' None, Run 0, Capture ''a'', Run 0,
         Capture ''b'', Run 0, Capture ''c'', Run 0] main
       = [([''a''], Some ''a''), ([''a'', ''b'', ''c''], Some ''c'')]"
    by (simp add: eval_defs)
  from reads_strictly_increasing [OF 1, of plain_lib] 1 2 show ?thesis by blast
qed

text \<open>
  Claim C4, as stated, fails: a connection at the top of its loop when two frames are
  published is not woken by either. Its \<open>wait()\<close> blocks, it cannot read at all until a
  third frame is published, and then it reads the third.
\<close>

theorem lost_publishes_counterexample:
  "reads plain_lib 0 []
     [Request 0 ''/stream.mjpg'' ''HTTP/1.1'' None, Capture ''first'', Capture ''second'', Run 0,
      Capture ''third'', Run 0] main
   = [([''first'', ''second'', ''third''], Some ''third'')]
   \<and> run plain_lib
       [Request 0 ''/stream.mjpg'' ''HTTP/1.1'' None, Capture ''first'', Capture ''second'', Run 0, Run 0]
       main
     = None"
  by (simp add: eval_defs)

text \<open>
  Claim C4, amended. When two frames are published while a connection is parked in
  \<open>wait()\<close>, its read returns the second and never the first; and in every run every read
  returns the frame published last before it: nothing but the current frame is kept.
\<close>

theorem reads_latest:
  assumes "run lib evs main = Some s" and "phase_of s c = Some Parked"
  shows "reads lib c (published evs) [Capture f1, Capture f2, Run c] s
           = [(published evs @ [f1, f2], Some f2)]
       \<and> map snd (reads lib c [] evs' main) = map (last_opt \<circ> fst) (reads lib c [] evs' main)"
proof -
  from loop_inv_run [OF loop_inv_main assms(1)] have inv: "loop_inv s" .
  let ?s1 = "output_write f1 s" and ?s2 = "output_write f2 (output_write f1 s)"
  from output_write_phase [OF inv, of f1 c] assms(2) have 1: "phase_of ?s1 c = Some Woken"
    by simp
  have "handlers ?s2 = handlers ?s1" by (simp add: output_write_def)
  with 1 have 2: "phase_of ?s2 c = Some Woken" by (simp add: phase_of_def)
  then obtain h where h: "handlers ?s2 c = Some h" and w: "pc h = Woken"
    by (auto simp: phase_of_def)
  have f: "frame (the_output ?s2) = Some f2" by (simp add: output_write_def)
  have 3: "step lib (Run c) ?s2 = Some (resume c h ?s2)" using h w by simp
  have "reads lib c (published evs) [Capture f1, Capture f2, Run c] s
           = [(published evs @ [f1, f2], Some f2)]"
    using 1 2 3 f by simp
  moreover have "map snd (reads lib c [] evs' main)
                   = map (last_opt \<circ> fst) (reads lib c [] evs' main)"
    by (rule reads_latest_gen [OF main_frame])
  ultimately show ?thesis by simp
qed

theorem reads_latest_witness:
  "run plain_lib [Request 0 ''/stream.mjpg'' ''HTTP/1.1'' None, Capture ''old'', Run 0] main
     = Some \<lparr>the_output = \<lparr>frame = Some ''old'', condition = [0]\<rparr>,
             handlers = [0 \<mapsto> (woken_handler None)\<lparr>pc := Parked\<rparr>], logged = []\<rparr>
   \<and> phase_of \<lparr>the_output = \<lparr>frame = Some ''old'', condition = [0]\<rparr>,
               handlers = [0 \<mapsto> (woken_handler None)\<lparr>pc := Parked\<rparr>], logged = []\<rparr> 0
       = Some Parked
   \<and> reads plain_lib 0 [''old''] [Capture ''first'', Capture ''second'', Run 0]
        \<lparr>the_output = \<lparr>frame = Some ''old'', condition = [0]\<rparr>,
         handlers = [0 \<mapsto> (woken_handler None)\<lparr>pc := Parked\<rparr>], logged = []\<rparr>
       = [([''old'', ''first'', ''second''], Some ''second'')]"
proof -
  let ?s = "\<lparr>the_output = \<lparr>frame = Some ''old'', condition = [0]\<rparr>,
             handlers = [0 \<mapsto> (woken_handler None)\<lparr>pc := Parked\<rparr>], logged = []\<rparr>"
  have p: "phase_of ?s 0 = Some Parked" by (simp add: phase_of_def)
  have e: "published [Request 0 ''/stream.mjpg'' ''HTTP/1.1'' None, Capture ''old'', Run 0] = [''old'']"
    by (simp add: published_def)
  from reads_latest [OF run_parked p, of "''first''" "''second''"]
  have "reads plain_lib 0 [''old''] [Capture ''first'', Capture ''second'', Run 0] ?s
       = [([''old'', ''first'', ''second''], Some ''second'')]"
    unfolding e by simp
  with run_parked p show ?thesis by blast
qed

lemma release_all_apply:
  "release_all cs ts c =
     (if c \<in> set cs then map_option (\<lambda>(pl, h). (Reacquire, h)) (ts c) else ts c)"
proof (induction cs arbitrary: ts)
  case Nil
  show ?case by simp
next
  case (Cons a cs)
  show ?case
    by (cases "ts a") (auto simp: Cons.IH split: option.splits)
qed

lemma owner_inv_main: "owner_inv locked_main"
  by (simp add: owner_inv_def locked_main_def)

lemma owner_inv_step:
  assumes "owner_inv s" and "locked_step lib e s = Some s'"
  shows "owner_inv s'"
proof (cases e)
  case (Arrive c p v pr)
  with assms show ?thesis
    by (auto simp: owner_inv_def split: option.splits)
next
  case (Publish buf)
  with assms show ?thesis
    by (auto simp: owner_inv_def split: option.splits)
next
  case (Go c)
  from assms(2) Go obtain pl h where t: "threads s c = Some (pl, h)"
    by (auto split: option.splits)
  show ?thesis
  proof (cases pl)
    case (Sending fr)
    obtain h' w where it: "stream_iteration fr h = (h', w)"
      by (cases "stream_iteration fr h")
    from assms(2) Go t Sending it
    have s': "s' = s\<lparr>threads := (threads s)(c \<mapsto> enter_loop h'), warnings := warnings s @ w\<rparr>"
      by (auto split: if_splits)
    from assms(1) t Sending show ?thesis
      unfolding s' owner_inv_def by auto
  qed (use assms Go t in \<open>auto simp: owner_inv_def split: option.splits\<close>)
next
  case (Stall c)
  with assms show ?thesis by (auto simp: owner_inv_def)
next
  case (Drain c)
  with assms show ?thesis by (auto simp: owner_inv_def)
qed

lemma owner_inv_run:
  "owner_inv s \<Longrightarrow> locked_run lib evs s = Some s' \<Longrightarrow> owner_inv s'"
proof (induction evs arbitrary: s)
  case Nil
  then show ?case by simp
next
  case (Cons e evs)
  then show ?case by (auto split: option.splits dest: owner_inv_step)
qed

lemma serve_stream:
  "serve plain_lib (new_handler ''/stream.mjpg'' ''HTTP/1.1'' None)
     = (woken_handler None)\<lparr>pc := Ready\<rparr>"
  by (simp add: eval_defs)

lemma enter_loop_ready: "enter_loop (h\<lparr>pc := Ready\<rparr>) = (AtWith, h\<lparr>pc := Ready\<rparr>)"
  by (simp add: enter_loop_def)

text \<open>
  Claim C5, as stated, fails: \<open>write\<close> takes the lock that the connections take, so
  while a connection stands between \<open>with output.condition\<close> and its \<open>wait()\<close> the
  producer has to wait for it.
\<close>

theorem lock_held_counterexample:
  "locked_run plain_lib [Arrive 0 ''/stream.mjpg'' ''HTTP/1.1'' None, Go 0] locked_main
     = Some \<lparr>shared = \<lparr>frame = None, condition = []\<rparr>, owner = Some 0,
             threads = [0 \<mapsto> (AtWait, (woken_handler None)\<lparr>pc := Ready\<rparr>)],
             stalled = {}, warnings = []\<rparr>
   \<and> locked_run plain_lib
       [Arrive 0 ''/stream.mjpg'' ''HTTP/1.1'' None, Go 0, Publish ''JPEG''] locked_main
     = None"
  by (simp add: serve_stream enter_loop_ready locked_main_def)

text \<open>
  Claim C5, amended. In every state the program can reach, whatever the number of threads
  inside \<open>wait()\<close> and whichever sockets take no data, a call of \<open>output.write\<close>
  completes once the thread that holds the lock, if there is one, has executed one
  statement, which it always can: a thread that is parked, stalled on its socket or waiting
  for the lock never holds the lock. No other thread has to move. After the call the new
  frame is stored, the lock is free, and no socket has drained.
\<close>

theorem publish_never_blocks:
  assumes "locked_run lib evs locked_main = Some s"
  shows "(\<exists>s'. locked_run lib (leave s @ [Publish buf]) s = Some s'
            \<and> frame (shared s') = Some buf \<and> owner s' = None \<and> stalled s' = stalled s)
       \<and> length (leave s) \<le> 1
       \<and> (case owner s of
             None \<Rightarrow> True
           | Some c \<Rightarrow> map_option fst (threads s c) \<in> {Some AtWait, Some AtRead})"
proof -
  from owner_inv_run [OF owner_inv_main assms] have inv: "owner_inv s" .
  show ?thesis
  proof (cases "owner s")
    case None
    then show ?thesis by (simp add: leave_def)
  next
    case (Some c)
    with inv obtain h where "threads s c = Some (AtWait, h) \<or> threads s c = Some (AtRead, h)"
      by (auto simp: owner_inv_def)
    with Some show ?thesis by (auto simp: leave_def)
  qed
qed

lemma locked_example:
  "map_option (\<lambda>s. (owner s, stalled s, map_option fst (threads s 0),
       map_option fst (threads s 1), map_option fst (threads s 2), shared s))
     (locked_run plain_lib
        [Arrive 0 ''/stream.mjpg'' ''HTTP/1.1'' None, Arrive 1 ''/stream.mjpg'' ''HTTP/1.1'' None,
         Arrive 2 ''/stream.mjpg'' ''HTTP/1.1'' None, Go 1, Go 1, Publish ''a'', Go 1, Go 1,
         Stall 1, Go 2, Go 2, Go 0] locked_main)
   = Some (Some 0, {1}, Some AtWait, Some (Sending (Some ''a'')), Some InWait,
           \<lparr>frame = Some ''a'', condition = [2]\<rparr>)"
  by (simp add: serve_stream enter_loop_ready locked_main_def)

theorem publish_never_blocks_witness:
  "\<exists>s. locked_run plain_lib
        [Arrive 0 ''/stream.mjpg'' ''HTTP/1.1'' None, Arrive 1 ''/stream.mjpg'' ''HTTP/1.1'' None,
         Arrive 2 ''/stream.mjpg'' ''HTTP/1.1'' None, Go 1, Go 1, Publish ''a'', Go 1, Go 1,
         Stall 1, Go 2, Go 2, Go 0] locked_main = Some s
      \<and> owner s = Some 0 \<and> stalled s = {1}
      \<and> map_option fst (threads s 1) = Some (Sending (Some ''a''))
      \<and> map_option fst (threads s 2) = Some InWait
      \<and> locked_step plain_lib (Go 1) s = None
      \<and> locked_step plain_lib (Go 2) s = None
      \<and> locked_step plain_lib (Publish ''b'') s = None
      \<and> (\<exists>s'. locked_run plain_lib [Go 0, Publish ''b''] s = Some s'
            \<and> frame (shared s') = Some ''b'' \<and> owner s' = None \<and> stalled s' = {1})"
proof -
  define R where "R = locked_run plain_lib
        [Arrive 0 ''/stream.mjpg'' ''HTTP/1.1'' None, Arrive 1 ''/stream.mjpg'' ''HTTP/1.1'' None,
         Arrive 2 ''/stream.mjpg'' ''HTTP/1.1'' None, Go 1, Go 1, Publish ''a'', Go 1, Go 1,
         Stall 1, Go 2, Go 2, Go 0] locked_main"
  have "map_option (\<lambda>s. (owner s, stalled s, map_option fst (threads s 0),
       map_option fst (threads s 1), map_option fst (threads s 2), shared s)) R
   = Some (Some 0, {1}, Some AtWait, Some (Sending (Some ''a'')), Some InWait,
           \<lparr>frame = Some ''a'', condition = [2]\<rparr>)"
    unfolding R_def by (rule locked_example)
  then obtain s where
    r: "R = Some s" and
    o: "owner s = Some 0" and st: "stalled s = {1}" and
    t1: "map_option fst (threads s 1) = Some (Sending (Some ''a''))" and
    t2: "map_option fst (threads s 2) = Some InWait"
    by (cases R) simp_all
  from t1 obtain h1 where "threads s 1 = Some (Sending (Some ''a''), h1)"
    by (cases "threads s 1") auto
  with st have g1: "locked_step plain_lib (Go 1) s = None" by simp
  from t2 obtain h2 where "threads s 2 = Some (InWait, h2)"
    by (cases "threads s 2") auto
  then have g2: "locked_step plain_lib (Go 2) s = None" by simp
  from o have p: "locked_step plain_lib (Publish ''b'') s = None" by simp
  note r' = r [unfolded R_def]
  have l: "leave s @ [Publish ''b''] = [Go 0, Publish ''b'']" using o by (simp add: leave_def)
  from publish_never_blocks [OF r', of "''b''"]
  have "\<exists>s'. locked_run plain_lib (leave s @ [Publish ''b'']) s = Some s'
            \<and> frame (shared s') = Some ''b'' \<and> owner s' = None \<and> stalled s' = stalled s"
    by (rule conjunct1)
  then have fin: "\<exists>s'. locked_run plain_lib [Go 0, Publish ''b''] s = Some s'
            \<and> frame (shared s') = Some ''b'' \<and> owner s' = None \<and> stalled s' = {1}"
    unfolding l st by blast
  show ?thesis
    by (rule exI [of _ s]) (intro conjI r' o st t1 t2 g1 g2 p fin)
qed

end
